theory Spec2Isabelle
  imports
    Main
    "HOL-Library.Word"
    "HOL-Library.AList"
    "HOL-Library.Char_ord"
    "HOL-Library.List_Lexorder"
begin

section \<open>Outcomes of a call\<close>

text \<open>
  The exception classes of \<^verbatim>\<open>argparse.hpp\<close>, with the message handed to the constructor.
  \<^verbatim>\<open>handle_error\<close> throws a plain \<^verbatim>\<open>std::logic_error\<close>; \<^verbatim>\<open>std::vector::at\<close>,
  \<^verbatim>\<open>std::map::at\<close> and \<^verbatim>\<open>std::string::substr\<close> throw \<^verbatim>\<open>std::out_of_range\<close>.
\<close>

datatype exn =
    ArgumentError string
  | AttributeError string
  | ValueError string
  | IndexError string
  | TypeError string
  | logic_error string
  | out_of_range

text \<open>The dynamic class of a thrown object, and the C++ base class of each class.\<close>

datatype exn_class =
    ArgumentError_class | AttributeError_class | ValueError_class | IndexError_class
  | TypeError_class | logic_error_class | out_of_range_class | invalid_argument_class
  | exception_class

fun class_of :: "exn \<Rightarrow> exn_class" where
  "class_of (ArgumentError m) = ArgumentError_class"
| "class_of (AttributeError m) = AttributeError_class"
| "class_of (ValueError m) = ValueError_class"
| "class_of (IndexError m) = IndexError_class"
| "class_of (TypeError m) = TypeError_class"
| "class_of (logic_error m) = logic_error_class"
| "class_of out_of_range = out_of_range_class"

fun base_class :: "exn_class \<Rightarrow> exn_class option" where
  "base_class ArgumentError_class = Some invalid_argument_class"
| "base_class AttributeError_class = Some invalid_argument_class"
| "base_class ValueError_class = Some invalid_argument_class"
| "base_class IndexError_class = Some logic_error_class"
| "base_class TypeError_class = Some logic_error_class"
| "base_class out_of_range_class = Some logic_error_class"
| "base_class invalid_argument_class = Some logic_error_class"
| "base_class logic_error_class = Some exception_class"
| "base_class exception_class = None"

text \<open>
  A handler \<^verbatim>\<open>catch (H&)\<close> catches an object of dynamic class \<open>c\<close> when \<open>H\<close> is \<open>c\<close>
  or one of its bases; the hierarchy is four levels deep.
\<close>

fun catches_within :: "nat \<Rightarrow> exn_class \<Rightarrow> exn_class \<Rightarrow> bool" where
  "catches_within 0 h c = (h = c)"
| "catches_within (Suc k) h c =
     (h = c \<or> (case base_class c of None \<Rightarrow> False | Some b \<Rightarrow> catches_within k h b))"

definition catches :: "exn_class \<Rightarrow> exn \<Rightarrow> bool" where
  "catches h e = catches_within 4 h (class_of e)"

text \<open>
  A call returns, throws, ends the process with \<^verbatim>\<open>exit(code)\<close>, or has undefined
  behaviour (a null pointer is dereferenced).
\<close>

datatype 'a outcome = Return 'a | Throw exn | Exit nat | Crash

fun bind :: "'a outcome \<Rightarrow> ('a \<Rightarrow> 'b outcome) \<Rightarrow> 'b outcome" where
  "bind (Return x) f = f x"
| "bind (Throw e) f = Throw e"
| "bind (Exit c) f = Exit c"
| "bind Crash f = Crash"

lemma bind_cong [fundef_cong]:
  "m = m' \<Longrightarrow> (\<And>x. m' = Return x \<Longrightarrow> f x = f' x) \<Longrightarrow> bind m f = bind m' f'"
  by (cases m') auto

lemma bind_eq_Return_iff:
  "bind m f = Return y \<longleftrightarrow> (\<exists>x. m = Return x \<and> f x = Return y)"
  by (cases m) auto

section \<open>Token utilities (namespace detail)\<close>

text \<open>The character \<^verbatim>\<open>'\<close> as a string, for the messages that quote a value.\<close>

definition apostrophe :: string where
  "apostrophe = [CHR 0x27]"

definition isspace :: "char \<Rightarrow> bool" where
  "isspace c = (c = CHR '' '' \<or> c = CHR 0x09 \<or> c = CHR 0x0A \<or> c = CHR 0x0B
                \<or> c = CHR 0x0C \<or> c = CHR 0x0D)"

definition ltrim :: "string \<Rightarrow> string" where
  "ltrim s = dropWhile isspace s"

definition rtrim :: "string \<Rightarrow> string" where
  "rtrim s = rev (dropWhile isspace (rev s))"

definition trim_copy :: "string \<Rightarrow> string" where
  "trim_copy s = rtrim (ltrim s)"

text \<open>\<^verbatim>\<open>s.front()\<close>; on an empty \<^verbatim>\<open>std::string\<close> it reads the terminating NUL.\<close>

definition front_char :: "string \<Rightarrow> char" where
  "front_char s = (case s of [] \<Rightarrow> CHR 0x00 | c # cs \<Rightarrow> c)"

text \<open>\<^verbatim>\<open>flags.front()\<close> of a flag vector; every declared argument has a flag.\<close>

definition front_flag :: "string list \<Rightarrow> string" where
  "front_flag fs = (case fs of [] \<Rightarrow> [] | f # r \<Rightarrow> f)"

definition remove_quotes :: "string \<Rightarrow> string" where
  "remove_quotes s =
     (if length s > 1 \<and> hd s = last s \<and> (hd s = CHR 0x27 \<or> hd s = CHR 0x22)
      then take (length s - 2) (drop 1 s) else s)"

definition split_equal :: "string \<Rightarrow> string list" where
  "split_equal s =
     (if CHR ''='' \<in> set s
      then [takeWhile (\<lambda>c. c \<noteq> CHR ''='') s, drop 1 (dropWhile (\<lambda>c. c \<noteq> CHR ''='') s)]
      else [s])"

definition starts_with :: "string \<Rightarrow> string \<Rightarrow> bool" where
  "starts_with str pattern = (take (length pattern) str = pattern)"

definition is_value_exists :: "'a \<Rightarrow> 'a list \<Rightarrow> bool" where
  "is_value_exists v vec = (v \<in> set vec)"

definition is_string_contains_char :: "string \<Rightarrow> char \<Rightarrow> bool" where
  "is_string_contains_char str c = (c \<in> set str)"

definition is_optional_argument :: "string \<Rightarrow> string \<Rightarrow> bool" where
  "is_optional_argument arg prefix_chars = is_string_contains_char prefix_chars (front_char arg)"

definition flag_name :: "string \<Rightarrow> string" where
  "flag_name str = dropWhile (\<lambda>c. c = front_char str) str"

text \<open>
  \<^verbatim>\<open>_is_negative_number\<close> reads a \<^verbatim>\<open>double\<close> with \<^verbatim>\<open>std::stringstream >> value\<close>
  and wants the stream at its end without a failure. The extraction is the standard
  library's: leading white space is skipped, then a sign, decimal digits with at most one
  point, and an exponent are read. It fails when no digit was read, when an exponent mark
  has no digits, and when the value is too large for a \<^verbatim>\<open>double\<close>; a value that rounds to
  zero is not below zero.
\<close>

definition isdigit :: "char \<Rightarrow> bool" where
  "isdigit c = (CHR ''0'' \<le> c \<and> c \<le> CHR ''9'')"

definition digits_value :: "string \<Rightarrow> nat" where
  "digits_value ds = foldl (\<lambda>acc c. 10 * acc + (of_char c - 48)) 0 ds"

definition double_is_nonzero_finite :: "nat \<Rightarrow> int \<Rightarrow> bool" where
  "double_is_nonzero_finite m k =
     (if k \<ge> 0 then m > 0 \<and> m * 10 ^ nat k < 2 ^ 1024 - 2 ^ 970
      else m * 2 ^ 1075 > 10 ^ nat (- k) \<and> m < (2 ^ 1024 - 2 ^ 970) * 10 ^ nat (- k))"

definition exponent_ok :: "string \<Rightarrow> int option" where
  "exponent_ok s =
     (if s = [] then Some 0
      else if hd s = CHR ''e'' \<or> hd s = CHR ''E'' then
        (let r = tl s;
             neg = (r \<noteq> [] \<and> hd r = CHR ''-'');
             ds = (if r \<noteq> [] \<and> (hd r = CHR ''-'' \<or> hd r = CHR ''+'') then tl r else r)
         in if ds \<noteq> [] \<and> list_all isdigit ds
            then Some (if neg then - int (digits_value ds) else int (digits_value ds))
            else None)
      else None)"

definition is_negative_number :: "string \<Rightarrow> bool" where
  "is_negative_number str =
     (let s = dropWhile isspace str in
      if s = [] \<or> hd s \<noteq> CHR ''-'' then False
      else
        (let body = tl s;
             ip = takeWhile isdigit body;
             r1 = dropWhile isdigit body;
             fp = (if r1 \<noteq> [] \<and> hd r1 = CHR ''.'' then takeWhile isdigit (tl r1) else []);
             r2 = (if r1 \<noteq> [] \<and> hd r1 = CHR ''.'' then dropWhile isdigit (tl r1) else r1)
         in if ip = [] \<and> fp = [] then False
            else (case exponent_ok r2 of
                    None \<Rightarrow> False
                  | Some e \<Rightarrow> double_is_nonzero_finite (digits_value (ip @ fp))
                                (e - int (length fp)))))"

fun vector_string_to_string_loop :: "string \<Rightarrow> string \<Rightarrow> string \<Rightarrow> string list \<Rightarrow> string" where
  "vector_string_to_string_loop separator quotes res [] = res"
| "vector_string_to_string_loop separator quotes res (el # vec) =
     vector_string_to_string_loop separator quotes
       ((if res \<noteq> [] then res @ separator else res) @ quotes @ el @ quotes) vec"

definition vector_string_to_string :: "string list \<Rightarrow> string \<Rightarrow> string \<Rightarrow> string" where
  "vector_string_to_string vec separator quotes =
     vector_string_to_string_loop separator quotes [] vec"

text \<open>\<^verbatim>\<open>std::to_string\<close> of an unsigned value.\<close>

function to_string :: "nat \<Rightarrow> string" where
  "to_string n =
     (if n < 10 then [char_of (48 + n)] else to_string (n div 10) @ [char_of (48 + n mod 10)])"
  by pat_completeness auto
termination
  by (relation "measure id") auto

section \<open>Argument descriptors\<close>

datatype Action =
    store | store_const | store_true | store_false | append_action | append_const
  | count_action | help_action | version_action | extend_action

datatype Enum = NONE | SUPPRESS

datatype Type = Positional | Optional

text \<open>The test \<^verbatim>\<open>m_action & (Action::store | Action::append | Action::extend)\<close>.\<close>

definition takes_values :: "Action \<Rightarrow> bool" where
  "takes_values a = (a = store \<or> a = append_action \<or> a = extend_action)"

text \<open>
  The fields of class \<^verbatim>\<open>Argument\<close>. \<open>m_callback\<close> holds a handle of the installed
  \<^verbatim>\<open>std::function\<close>, \<open>None\<close> for \<^verbatim>\<open>nullptr\<close>.
\<close>

record Argument =
  m_flags :: "string list"
  m_name :: string
  m_type :: Type
  m_action :: Action
  m_nargs :: string
  m_num_args :: "32 word"
  m_const :: string
  m_default :: string
  m_choices :: "string list"
  m_required :: bool
  m_help :: string
  m_help_type :: Enum
  m_metavar :: string
  m_dest :: string
  m_version :: string
  m_callback :: "nat option"

definition new_Argument :: "string list \<Rightarrow> string \<Rightarrow> Type \<Rightarrow> Argument" where
  "new_Argument flags name type =
     \<lparr> m_flags = flags, m_name = name, m_type = type, m_action = store, m_nargs = [],
       m_num_args = 0, m_const = [], m_default = [], m_choices = [], m_required = False,
       m_help = [], m_help_type = NONE, m_metavar = [], m_dest = [], m_version = [],
       m_callback = None \<rparr>"

text \<open>
  \<^verbatim>\<open>Argument::action(Action)\<close>. The two clean-ups at its head run before the switch; the
  \<^verbatim>\<open>version\<close> case falls through \<^verbatim>\<open>help\<close> into the constant-like cases. When it throws,
  the receiver keeps the assignments made so far; the model returns the exception only.
\<close>

definition action :: "Action \<Rightarrow> Argument \<Rightarrow> Argument outcome" where
  "action v a0 =
     (let a1 = (if m_action a0 \<noteq> store_true then a0\<lparr>m_callback := None\<rparr> else a0);
          a = (if m_action a1 = version_action then a1\<lparr>m_help := []\<rparr> else a1);
          zero = (\<lambda>x. x\<lparr>m_nargs := ''0'', m_num_args := 0, m_choices := []\<rparr>)
      in case v of
           store_true \<Rightarrow>
             Return ((zero (a\<lparr>m_default := ''0'', m_const := ''1''\<rparr>))\<lparr>m_action := v\<rparr>)
         | store_false \<Rightarrow>
             Return ((zero (a\<lparr>m_default := ''1'', m_const := ''0''\<rparr>))\<lparr>m_action := v\<rparr>)
         | version_action \<Rightarrow>
             (if m_type a = Positional
              then Throw (TypeError (''got an unexpected keyword argument 'required'' @ apostrophe))
              else Return ((zero (a\<lparr>m_help := ''show program's version number and exit''\<rparr>))
                             \<lparr>m_action := v\<rparr>))
         | help_action \<Rightarrow>
             (if m_type a = Positional
              then Throw (TypeError (''got an unexpected keyword argument 'required'' @ apostrophe))
              else Return ((zero a)\<lparr>m_action := v\<rparr>))
         | store_const \<Rightarrow> Return ((zero a)\<lparr>m_action := v\<rparr>)
         | append_const \<Rightarrow> Return ((zero a)\<lparr>m_action := v\<rparr>)
         | count_action \<Rightarrow> Return ((zero a)\<lparr>m_action := v\<rparr>)
         | _ \<Rightarrow> Return ((if m_nargs a = ''0'' then a\<lparr>m_nargs := []\<rparr> else a)\<lparr>m_action := v\<rparr>))"

text \<open>\<^verbatim>\<open>Argument::nargs(uint32_t)\<close>.\<close>

definition nargs_num :: "32 word \<Rightarrow> Argument \<Rightarrow> Argument outcome" where
  "nargs_num v a =
     (if \<not> takes_values (m_action a)
      then Throw (TypeError (''got an unexpected keyword argument 'nargs'' @ apostrophe))
      else if v = 0 then
        Throw (ValueError
          (if m_action a = store
           then ''nargs for store actions must be != 0; if you have nothing to store, actions such as store true or store const may be more appropriate''
           else ''nargs for append actions must be != 0; if arg strings are not supplying the value to append, the append const action may be more appropriate''))
      else Return (a\<lparr>m_nargs := to_string (unat v), m_num_args := v\<rparr>))"

text \<open>\<^verbatim>\<open>Argument::nargs(std::string const&)\<close>.\<close>

definition nargs_str :: "string \<Rightarrow> Argument \<Rightarrow> Argument outcome" where
  "nargs_str v a =
     (if \<not> takes_values (m_action a)
      then Throw (TypeError (''got an unexpected keyword argument 'nargs'' @ apostrophe))
      else let param = trim_copy v in
        if \<not> is_value_exists param [''?'', ''*'', ''+'']
        then Throw (ValueError (''invalid nargs value '' @ apostrophe @ param @ apostrophe))
        else Return (a\<lparr>m_nargs := param, m_num_args := 0\<rparr>))"

definition const_value :: "string \<Rightarrow> Argument \<Rightarrow> Argument outcome" where
  "const_value v a =
     (if m_action a = store_const \<or> m_action a = append_const
         \<or> (m_type a = Optional \<and> m_nargs a = ''?'' \<and> takes_values (m_action a))
      then Return (a\<lparr>m_const := trim_copy v\<rparr>)
      else if m_type a = Optional \<and> m_nargs a \<noteq> ''?'' \<and> takes_values (m_action a)
      then Throw (ValueError ''nargs must be '?' to supply const'')
      else Throw (TypeError (''got an unexpected keyword argument 'const'' @ apostrophe)))"

definition default_value :: "string \<Rightarrow> Argument \<Rightarrow> Argument outcome" where
  "default_value v a =
     (if \<not> (m_action a = store_true \<or> m_action a = store_false)
      then Return (a\<lparr>m_default := trim_copy v\<rparr>)
      else Return a)"

definition choices :: "string list \<Rightarrow> Argument \<Rightarrow> Argument outcome" where
  "choices v a =
     (if \<not> takes_values (m_action a)
      then Throw (TypeError (''got an unexpected keyword argument 'choices'' @ apostrophe))
      else Return (a\<lparr>m_choices := filter (\<lambda>param. param \<noteq> []) (map trim_copy v)\<rparr>))"

definition required :: "bool \<Rightarrow> Argument \<Rightarrow> Argument outcome" where
  "required v a =
     (if m_type a = Positional
      then Throw (TypeError (apostrophe @ ''required' is an invalid argument for positionals''))
      else Return (a\<lparr>m_required := v\<rparr>))"

definition dest :: "string \<Rightarrow> Argument \<Rightarrow> Argument outcome" where
  "dest v a =
     (if m_type a = Positional
      then Throw (ValueError ''dest supplied twice for positional argument'')
      else Return (a\<lparr>m_dest := trim_copy v\<rparr>))"

definition help_text :: "string \<Rightarrow> Argument \<Rightarrow> Argument outcome" where
  "help_text v a = Return (a\<lparr>m_help := trim_copy v, m_help_type := NONE\<rparr>)"

section \<open>Parser schema\<close>

text \<open>
  The fields of class \<^verbatim>\<open>ArgumentParser\<close> that \<^verbatim>\<open>parse_args\<close> reads. The usage and help
  texts, the sub-parser group and the streams they are written to are not modelled:
  \<^verbatim>\<open>parse_known_args\<close> never reads them.
\<close>

record parser_fields =
  m_prog :: string
  m_prefix_chars :: string
  m_fromfile_prefix_chars :: string
  m_argument_default :: string
  m_add_help :: bool
  m_allow_abbrev :: bool
  m_exit_on_error :: bool
  m_arguments :: "Argument list"

datatype ArgumentParser =
  ArgumentParser (cfg: parser_fields) (m_parents: "ArgumentParser list")

definition new_ArgumentParser :: "string \<Rightarrow> ArgumentParser" where
  "new_ArgumentParser prog =
     ArgumentParser
       \<lparr> m_prog = prog, m_prefix_chars = ''-'', m_fromfile_prefix_chars = [],
         m_argument_default = [], m_add_help = True, m_allow_abbrev = True,
         m_exit_on_error = True, m_arguments = [] \<rparr> []"

text \<open>
  \<open>m_help_argument\<close>, which the constructor builds as
  \<^verbatim>\<open>Argument({"-h", "--help"}, "help", Optional).help(...).action(Action::store_true)\<close>.
\<close>

definition help_argument :: Argument where
  "help_argument =
     (new_Argument [''-h'', ''--help''] ''help'' Optional)
       \<lparr> m_action := store_true, m_nargs := ''0'', m_const := ''1'', m_default := ''0'',
         m_help := ''show this help message and exit'' \<rparr>"

definition set_fields :: "(parser_fields \<Rightarrow> parser_fields) \<Rightarrow> ArgumentParser \<Rightarrow> ArgumentParser" where
  "set_fields f p = ArgumentParser (f (cfg p)) (m_parents p)"

text \<open>The setters of the parser settings.\<close>

definition prefix_chars :: "string \<Rightarrow> ArgumentParser \<Rightarrow> ArgumentParser" where
  "prefix_chars param p =
     (if trim_copy param \<noteq> []
      then set_fields (\<lambda>s. s\<lparr>m_prefix_chars := trim_copy param\<rparr>) p else p)"

definition fromfile_prefix_chars :: "string \<Rightarrow> ArgumentParser \<Rightarrow> ArgumentParser" where
  "fromfile_prefix_chars param p =
     set_fields (\<lambda>s. s\<lparr>m_fromfile_prefix_chars := trim_copy param\<rparr>) p"

definition argument_default :: "string \<Rightarrow> ArgumentParser \<Rightarrow> ArgumentParser" where
  "argument_default param p = set_fields (\<lambda>s. s\<lparr>m_argument_default := trim_copy param\<rparr>) p"

definition add_help :: "bool \<Rightarrow> ArgumentParser \<Rightarrow> ArgumentParser" where
  "add_help v p = set_fields (\<lambda>s. s\<lparr>m_add_help := v\<rparr>) p"

definition allow_abbrev :: "bool \<Rightarrow> ArgumentParser \<Rightarrow> ArgumentParser" where
  "allow_abbrev v p = set_fields (\<lambda>s. s\<lparr>m_allow_abbrev := v\<rparr>) p"

definition exit_on_error :: "bool \<Rightarrow> ArgumentParser \<Rightarrow> ArgumentParser" where
  "exit_on_error v p = set_fields (\<lambda>s. s\<lparr>m_exit_on_error := v\<rparr>) p"

definition update_flag_name :: "string \<Rightarrow> string \<times> nat \<Rightarrow> string \<times> nat" where
  "update_flag_name arg st =
     (let name = flag_name arg; count_prefixes = length arg - length name
      in if snd st < count_prefixes then (name, count_prefixes) else st)"

fun check_flags :: "string \<Rightarrow> string list \<Rightarrow> string \<times> nat \<Rightarrow> (string \<times> nat) outcome" where
  "check_flags prefixes [] st = Return st"
| "check_flags prefixes (flag # flags) st =
     (if flag = [] then Throw (IndexError ''string index out of range'')
      else if \<not> is_optional_argument flag prefixes
      then Throw (ValueError (''invalid option string '' @ flag
                  @ '': must starts with a character '' @ apostrophe @ prefixes @ apostrophe))
      else check_flags prefixes flags (update_flag_name flag st))"

text \<open>\<^verbatim>\<open>ArgumentParser::add_argument(std::vector<std::string>)\<close>: the new descriptor.\<close>

definition make_argument :: "string \<Rightarrow> string list \<Rightarrow> Argument outcome" where
  "make_argument prefixes flags0 =
     (if flags0 = [] then Throw (ValueError ''empty options'')
      else
        let flags = trim_copy (hd flags0) # tl flags0;
            flag_name0 = hd flags
        in if flag_name0 = [] then Throw (IndexError ''string index out of range'')
           else
             let is_optional = is_optional_argument flag_name0 prefixes in
             if \<not> is_optional \<and> length flags > 1
             then Throw (ValueError (''invalid option string '' @ hd flags
                         @ '': must starts with a character '' @ apostrophe @ prefixes
                         @ apostrophe))
             else
               bind (check_flags prefixes (tl flags)
                       (if is_optional then update_flag_name flag_name0 (flag_name0, 0)
                        else (flag_name0, 0)))
                 (\<lambda>st. Return (new_Argument flags (fst st)
                                  (if is_optional then Optional else Positional))))"

definition add_argument :: "string list \<Rightarrow> ArgumentParser \<Rightarrow> ArgumentParser outcome" where
  "add_argument flags p =
     bind (make_argument (m_prefix_chars (cfg p)) flags)
       (\<lambda>a. Return (set_fields (\<lambda>s. s\<lparr>m_arguments := m_arguments s @ [a]\<rparr>) p))"

text \<open>
  \<^verbatim>\<open>add_argument\<close> returns a reference to \<^verbatim>\<open>m_arguments.back()\<close>; a builder call chained
  on it updates that element.
\<close>

definition on_back :: "(Argument \<Rightarrow> Argument outcome) \<Rightarrow> ArgumentParser \<Rightarrow> ArgumentParser outcome" where
  "on_back f p =
     (case rev (m_arguments (cfg p)) of
        [] \<Rightarrow> Crash
      | a # earlier \<Rightarrow>
          bind (f a) (\<lambda>a'. Return (set_fields (\<lambda>s. s\<lparr>m_arguments := rev earlier @ [a']\<rparr>) p)))"

fun positional_arguments :: "bool \<Rightarrow> ArgumentParser \<Rightarrow> Argument list" where
  "positional_arguments add_suppress (ArgumentParser s parents) =
     concat (map (positional_arguments add_suppress) parents)
     @ filter (\<lambda>arg. m_type arg = Positional \<and> (add_suppress \<or> m_help_type arg \<noteq> SUPPRESS))
         (m_arguments s)"

fun optional_arguments :: "bool \<Rightarrow> ArgumentParser \<Rightarrow> Argument list" where
  "optional_arguments add_suppress (ArgumentParser s parents) =
     (if m_add_help s then [help_argument] else [])
     @ concat (map (optional_arguments add_suppress) parents)
     @ filter (\<lambda>arg. m_type arg = Optional \<and> (add_suppress \<or> m_help_type arg \<noteq> SUPPRESS))
         (m_arguments s)"

section \<open>The resolver: \<^verbatim>\<open>parse_known_args\<close>\<close>

text \<open>
  The values the lambdas of \<^verbatim>\<open>parse_known_args\<close> capture: parser settings, the two
  flattened argument lists and \<open>have_negative_options\<close>.
\<close>

record ctx =
  c_prog :: string
  c_prefix_chars :: string
  c_argument_default :: string
  c_add_help :: bool
  c_allow_abbrev :: bool
  positional :: "Argument list"
  optional :: "Argument list"
  have_negative_options :: bool

text \<open>
  \<^verbatim>\<open>std::map<std::string, ArgumentValue>\<close> as an association list with one entry per key;
  \<^verbatim>\<open>result.at(flag)\<close> throws when the key is absent.
\<close>

type_synonym ArgumentValue = "Action \<times> string list"
type_synonym result_map = "(string \<times> ArgumentValue) list"

text \<open>
  \<^verbatim>\<open>handle_error\<close> prints the usage text to \<^verbatim>\<open>std::cerr\<close> (not modelled) and throws;
  its first argument is \<open>m_prog\<close>.
\<close>

definition handle_error :: "string \<Rightarrow> string \<Rightarrow> 'a outcome" where
  "handle_error prog error = Throw (logic_error (prog @ '': error: '' @ error))"

definition get_argument_flags :: "Argument \<Rightarrow> string list" where
  "get_argument_flags arg = (if m_dest arg = [] then m_flags arg else [m_dest arg])"

fun validate_arguments :: "Argument list \<Rightarrow> unit outcome" where
  "validate_arguments [] = Return ()"
| "validate_arguments (arg # arguments) =
     (if (m_action arg = store_const \<or> m_action arg = append_const) \<and> m_const arg = []
      then Throw (TypeError (''missing 1 required positional argument: 'const'' @ apostrophe))
      else validate_arguments arguments)"

definition validate_argument_value :: "ctx \<Rightarrow> Argument \<Rightarrow> string \<Rightarrow> unit outcome" where
  "validate_argument_value c arg v =
     (if m_choices arg \<noteq> [] \<and> \<not> is_value_exists (remove_quotes v) (m_choices arg)
      then handle_error (c_prog c) (''argument '' @ front_flag (m_flags arg) @ '': invalid choice: ''
             @ apostrophe @ remove_quotes v @ apostrophe @ '' (choose from ''
             @ vector_string_to_string (m_choices arg) '', '' apostrophe @ '')'')
      else Return ())"

fun create_result_flags :: "Action \<Rightarrow> string list \<Rightarrow> result_map \<Rightarrow> result_map outcome" where
  "create_result_flags a [] r = Return r"
| "create_result_flags a (flag # flags) r =
     (if map_of r flag = None then create_result_flags a flags (r @ [(flag, (a, []))])
      else Throw (ArgumentError (''argument '' @ flag @ '': conflicting option string: '' @ flag)))"

fun create_result :: "Argument list \<Rightarrow> result_map \<Rightarrow> result_map outcome" where
  "create_result [] r = Return r"
| "create_result (arg # arguments) r =
     bind (create_result_flags (m_action arg) (get_argument_flags arg) r) (create_result arguments)"

definition is_negative_numbers_presented :: "string \<Rightarrow> Argument list \<Rightarrow> bool" where
  "is_negative_numbers_presented prefixes optionals =
     (is_string_contains_char prefixes CHR ''-''
      \<and> list_ex (\<lambda>arg. list_ex is_negative_number (m_flags arg)) optionals)"

definition get_optional_arg_by_flag :: "ctx \<Rightarrow> string \<Rightarrow> Argument option" where
  "get_optional_arg_by_flag c key = find (\<lambda>arg. key \<in> set (m_flags arg)) (optional c)"

definition get_optional_arg_by_dest :: "ctx \<Rightarrow> string \<Rightarrow> Argument option" where
  "get_optional_arg_by_dest c key =
     find (\<lambda>arg. (m_dest arg \<noteq> [] \<and> m_dest arg = key) \<or> key \<in> set (m_flags arg)) (optional c)"

text \<open>
  The test that lets a following token be taken as a value: it is not option-shaped, or it
  is a negative number and no declared flag looks like one.
\<close>

definition is_value_token :: "ctx \<Rightarrow> string \<Rightarrow> bool" where
  "is_value_token c next =
     (\<not> is_optional_argument next (c_prefix_chars c)
      \<or> (\<not> have_negative_options c \<and> is_negative_number next))"

text \<open>
  One loop \<^verbatim>\<open>for (auto const& flag : _get_argument_flags(arg))\<close> that rewrites
  \<^verbatim>\<open>result.at(flag).second\<close> with \<open>f\<close>.
\<close>

fun for_each_flag :: "(string list \<Rightarrow> string list) \<Rightarrow> string list \<Rightarrow> result_map \<Rightarrow> result_map outcome" where
  "for_each_flag f [] r = Return r"
| "for_each_flag f (flag # flags) r =
     (case map_of r flag of
        None \<Rightarrow> Throw out_of_range
      | Some av \<Rightarrow> for_each_flag f flags (AList.update flag (fst av, f (snd av)) r))"

definition store_value :: "ctx \<Rightarrow> Argument \<Rightarrow> string \<Rightarrow> result_map \<Rightarrow> result_map outcome" where
  "store_value c arg v r =
     bind (validate_argument_value c arg v)
       (\<lambda>u. for_each_flag (\<lambda>vs. vs @ [v]) (get_argument_flags arg) r)"

definition default_arg_value :: "ctx \<Rightarrow> Argument \<Rightarrow> string" where
  "default_arg_value c arg = (if m_default arg \<noteq> [] then m_default arg else c_argument_default c)"

definition store_default_value :: "ctx \<Rightarrow> Argument \<Rightarrow> result_map \<Rightarrow> result_map outcome" where
  "store_default_value c arg r =
     (if m_action arg = store
      then for_each_flag (\<lambda>vs. if vs = [] then [default_arg_value c arg] else vs)
             (get_argument_flags arg) r
      else Return r)"

definition store_const_value :: "Argument \<Rightarrow> result_map \<Rightarrow> result_map outcome" where
  "store_const_value arg r =
     for_each_flag (\<lambda>vs. if vs = [] then [m_const arg] else vs) (get_argument_flags arg) r"

fun append_const_loop :: "ctx \<Rightarrow> Argument \<Rightarrow> string list \<Rightarrow> result_map \<Rightarrow> result_map outcome" where
  "append_const_loop c arg [] r = Return r"
| "append_const_loop c arg (flag # flags) r =
     (if m_default arg \<noteq> []
      then handle_error (c_prog c) (''argument '' @ front_flag (m_flags arg) @ '': ignored default value ''
             @ apostrophe @ m_default arg @ apostrophe)
      else case map_of r flag of
             None \<Rightarrow> Throw out_of_range
           | Some av \<Rightarrow>
               append_const_loop c arg flags (AList.update flag (fst av, snd av @ [m_const arg]) r))"

definition append_const_value :: "ctx \<Rightarrow> Argument \<Rightarrow> result_map \<Rightarrow> result_map outcome" where
  "append_const_value c arg r = append_const_loop c arg (get_argument_flags arg) r"

definition store_count_value :: "Argument \<Rightarrow> result_map \<Rightarrow> result_map outcome" where
  "store_count_value arg r = for_each_flag (\<lambda>vs. vs @ [[]]) (get_argument_flags arg) r"

definition is_positional_arg_stored :: "ctx \<Rightarrow> Argument \<Rightarrow> result_map \<Rightarrow> (bool \<times> result_map) outcome" where
  "is_positional_arg_stored c arg r =
     (if m_action arg = store_const \<or> m_action arg = store_true \<or> m_action arg = store_false
      then bind (store_const_value arg r) (\<lambda>r'. Return (True, r'))
      else if m_action arg = append_const
      then bind (append_const_value c arg r) (\<lambda>r'. Return (True, r'))
      else if m_action arg = count_action
      then bind (store_count_value arg r) (\<lambda>r'. Return (True, r'))
      else Return (False, r))"

subsection \<open>Abbreviations and bundled short flags\<close>

text \<open>
  The search of \<^verbatim>\<open>_separate_arg_abbrev\<close> for one character \<open>ch\<close>: every optional
  contributes its first two-character flag that ends in \<open>ch\<close>; \<^verbatim>\<open>argument\<close> is left
  pointing at the last optional that contributed.
\<close>

fun short_flag_matches :: "char \<Rightarrow> Argument list \<Rightarrow> (string \<times> Argument) list" where
  "short_flag_matches ch [] = []"
| "short_flag_matches ch (opt # opts) =
     (case find (\<lambda>flag. length flag = 2 \<and> last flag = ch) (m_flags opt) of
        None \<Rightarrow> short_flag_matches ch opts
      | Some flag \<Rightarrow> (flag, opt) # short_flag_matches ch opts)"

definition append_to_back :: "string list \<Rightarrow> string \<Rightarrow> string list" where
  "append_to_back flags s = butlast flags @ [last flags @ s]"

text \<open>
  The loop over \<^verbatim>\<open>name\<close>: \<open>i\<close> is the index, the string argument is \<^verbatim>\<open>name.substr(i)\<close>.
  When an earlier character pushed more than one flag, \<^verbatim>\<open>flags.size() == i\<close> no longer
  detects a character without a flag, and \<^verbatim>\<open>argument->action()\<close> reads a null pointer.
\<close>

fun separate_loop :: "ctx \<Rightarrow> string \<Rightarrow> nat \<Rightarrow> string \<Rightarrow> string list \<Rightarrow> string list outcome" where
  "separate_loop c arg i [] flags = Return flags"
| "separate_loop c arg i (ch # rest) flags =
     (if ch = CHR ''='' then
        Return (if flags = [] then [ch # rest] else append_to_back flags (ch # rest))
      else
        let found = short_flag_matches ch (optional c);
            flags' = flags @ map fst found
        in if length flags' = i then
             Return (if flags' = [] then [arg]
                     else append_to_back flags'
                            ((if \<not> starts_with (ch # rest) ''='' then ''='' else []) @ ch # rest))
           else (case found of
                   [] \<Rightarrow> Crash
                 | m # ms \<Rightarrow>
                     if takes_values (m_action (snd (last found))) then
                       Return (append_to_back flags'
                                 ((if \<not> starts_with rest ''='' then ''='' else []) @ rest))
                     else separate_loop c arg (Suc i) rest flags'))"

definition separate_arg_abbrev :: "ctx \<Rightarrow> string \<Rightarrow> string \<Rightarrow> string list outcome" where
  "separate_arg_abbrev c arg name =
     (if length name + 1 = length arg then
        (let splitted = split_equal arg in
         if length splitted = 2 \<and> get_optional_arg_by_flag c (hd splitted) \<noteq> None
         then Return [arg]
         else separate_loop c arg 0 name [])
      else Return [arg])"

text \<open>
  The inner loop of \<^verbatim>\<open>_check_abbreviations\<close> over the flags of one optional: the first
  flag that the token abbreviates, or the first two-character flag that starts the token,
  ends the loop. The result is \<open>(is_flag_added, key, flag)\<close>.
\<close>

fun abbrev_candidate :: "string \<Rightarrow> string list \<Rightarrow> (bool \<times> string \<times> string) option" where
  "abbrev_candidate arg [] = None"
| "abbrev_candidate arg (flag # flags) =
     (if starts_with flag arg then Some (True, flag, flag)
      else if length flag = 2 \<and> starts_with arg flag then Some (False, arg, flag)
      else abbrev_candidate arg flags)"

text \<open>The outer loop: \<open>(is_flag_added, args, keys)\<close> after all optionals.\<close>

fun abbrev_scan :: "string \<Rightarrow> Argument list \<Rightarrow> bool \<times> string \<times> string list
                     \<Rightarrow> bool \<times> string \<times> string list" where
  "abbrev_scan arg [] acc = acc"
| "abbrev_scan arg (opt # opts) (is_flag_added, args, keys) =
     (case abbrev_candidate arg (m_flags opt) of
        None \<Rightarrow> abbrev_scan arg opts (is_flag_added, args, keys)
      | Some (added, key, flag) \<Rightarrow>
          abbrev_scan arg opts
            (is_flag_added \<or> added,
             (if args \<noteq> [] then args @ '','' else args) @ '' '' @ flag,
             keys @ [key]))"

text \<open>The body of the loop of \<^verbatim>\<open>_check_abbreviations\<close>: what one token is replaced with.\<close>

definition check_abbreviation :: "ctx \<Rightarrow> result_map \<Rightarrow> string \<Rightarrow> string list outcome" where
  "check_abbreviation c r arg =
     (if arg \<noteq> [] \<and> map_of r arg = None \<and> is_optional_argument arg (c_prefix_chars c)
         \<and> (have_negative_options c \<or> \<not> is_negative_number arg)
      then
        (if c_allow_abbrev c then
           (case abbrev_scan arg (optional c) (False, [], []) of
              (is_flag_added, args, keys) \<Rightarrow>
                if length keys > 1
                then handle_error (c_prog c) (''ambiguous option: '' @ apostrophe @ arg @ apostrophe
                                     @ '' could match'' @ args)
                else if is_flag_added then Return [if keys = [] then arg else hd keys]
                else separate_arg_abbrev c arg (flag_name (if keys = [] then arg else hd keys)))
         else separate_arg_abbrev c arg (flag_name arg))
      else Return [arg])"

fun check_abbreviations :: "ctx \<Rightarrow> result_map \<Rightarrow> string list \<Rightarrow> string list outcome" where
  "check_abbreviations c r [] = Return []"
| "check_abbreviations c r (arg # arguments) =
     bind (check_abbreviation c r arg)
       (\<lambda>ts. bind (check_abbreviations c r arguments) (\<lambda>rest. Return (ts @ rest)))"

subsection \<open>The main pass over the tokens\<close>

text \<open>
  The loop that collects the values of a \<^verbatim>\<open>store\<close>, \<^verbatim>\<open>append\<close> or \<^verbatim>\<open>extend\<close> option
  written without \<^verbatim>\<open>=\<close>. \<open>n\<close> is the \<^verbatim>\<open>uint32_t\<close> counter of stored values; the list
  is what follows index \<open>i\<close>, and the list returned is what the main loop goes on with.
\<close>

definition expected_error :: "ctx \<Rightarrow> Argument \<Rightarrow> string \<Rightarrow> 'a outcome" where
  "expected_error c temp arg =
     (if m_nargs temp = [] then handle_error (c_prog c) (''argument '' @ arg @ '': expected one argument'')
      else if m_nargs temp = ''+''
      then handle_error (c_prog c) (''argument '' @ arg @ '': expected at least one argument'')
      else handle_error (c_prog c) (''argument '' @ arg @ '': expected '' @ m_nargs temp @ '' arguments''))"

fun consume_values :: "ctx \<Rightarrow> Argument \<Rightarrow> string \<Rightarrow> 32 word \<Rightarrow> string list \<Rightarrow> result_map
                        \<Rightarrow> (string list \<times> result_map) outcome" where
  "consume_values c temp arg n [] r =
     (if n = 0 then
        (if m_nargs temp = ''?'' then
           bind (store_value c temp (m_const temp) r) (\<lambda>r'. Return ([], r'))
         else if m_nargs temp = ''*'' then Return ([], r)
         else expected_error c temp arg)
      else if m_num_args temp \<noteq> 0 \<and> n < m_num_args temp
      then handle_error (c_prog c) (''argument '' @ arg @ '': expected '' @ m_nargs temp @ '' arguments'')
      else Return ([], r))"
| "consume_values c temp arg n (next # rest) r =
     (if is_value_token c next then
        bind (store_value c temp next r)
          (\<lambda>r'. if m_nargs temp = [] \<or> (m_num_args temp \<noteq> 0 \<and> n + 1 = m_num_args temp)
                then Return (rest, r')
                else consume_values c temp arg (n + 1) rest r')
      else if n = 0 then
        (if m_nargs temp = ''?'' then
           bind (store_value c temp (m_const temp) r) (\<lambda>r'. Return (next # rest, r'))
         else if m_nargs temp = ''*'' then Return (next # rest, r)
         else expected_error c temp arg)
      else if m_num_args temp \<noteq> 0 \<and> n < m_num_args temp
      then handle_error (c_prog c) (''argument '' @ arg @ '': expected '' @ m_nargs temp @ '' arguments'')
      else Return (next # rest, r))"

text \<open>The cases \<^verbatim>\<open>store\<close> (after the clearing), \<^verbatim>\<open>append\<close> and \<^verbatim>\<open>extend\<close> of the switch.\<close>

definition store_values :: "ctx \<Rightarrow> Argument \<Rightarrow> string \<Rightarrow> string list \<Rightarrow> string list
                             \<Rightarrow> result_map \<Rightarrow> (string list \<times> result_map) outcome" where
  "store_values c temp arg splitted rest r =
     (if length splitted = 2 then
        (if m_nargs temp \<noteq> [] \<and> m_num_args temp > 1
         then handle_error (c_prog c) (''argument '' @ arg @ '': expected '' @ m_nargs temp @ '' arguments'')
         else if last splitted = []
         then handle_error (c_prog c) (''argument '' @ arg @ '': expected one argument'')
         else bind (store_value c temp (last splitted) r) (\<lambda>r'. Return (rest, r')))
      else consume_values c temp arg 0 rest r)"

definition ignored_explicit :: "ctx \<Rightarrow> string \<Rightarrow> string list \<Rightarrow> 'a outcome" where
  "ignored_explicit c arg splitted =
     handle_error (c_prog c) (''argument '' @ arg @ '': ignored explicit argument ''
                     @ apostrophe @ last splitted @ apostrophe)"

text \<open>The cases \<^verbatim>\<open>store_const\<close>, \<^verbatim>\<open>store_true\<close> and \<^verbatim>\<open>store_false\<close> of the switch.\<close>

definition store_constant :: "ctx \<Rightarrow> Argument \<Rightarrow> string \<Rightarrow> string list \<Rightarrow> string list
                               \<Rightarrow> result_map \<Rightarrow> (string list \<times> result_map) outcome" where
  "store_constant c temp arg splitted rest r =
     (if length splitted = 1
      then bind (store_const_value temp r) (\<lambda>r'. Return (rest, r'))
      else ignored_explicit c arg splitted)"

text \<open>
  The switch on \<^verbatim>\<open>temp->action()\<close>. A callback installed on a \<^verbatim>\<open>store_true\<close> argument
  is run by the source at this point; the model takes it to return without touching the
  parse. \<^verbatim>\<open>print_help(); exit(0)\<close> and the version output end the process with code 0.
\<close>

definition dispatch :: "ctx \<Rightarrow> Argument \<Rightarrow> string \<Rightarrow> string list \<Rightarrow> string list
                         \<Rightarrow> result_map \<Rightarrow> (string list \<times> result_map) outcome" where
  "dispatch c temp arg splitted rest r =
     (case m_action temp of
        store \<Rightarrow>
          bind (for_each_flag (\<lambda>vs. []) (get_argument_flags temp) r)
            (store_values c temp arg splitted rest)
      | append_action \<Rightarrow> store_values c temp arg splitted rest r
      | extend_action \<Rightarrow> store_values c temp arg splitted rest r
      | append_const \<Rightarrow>
          (if length splitted = 1
           then bind (append_const_value c temp r) (\<lambda>r'. Return (rest, r'))
           else ignored_explicit c arg splitted)
      | help_action \<Rightarrow>
          (if length splitted = 1 then Exit 0 else ignored_explicit c arg splitted)
      | version_action \<Rightarrow>
          (if length splitted = 1 then
             (if m_version temp = []
              then Throw (AttributeError
                     (apostrophe @ ''ArgumentParser' object has no attribute 'version'' @ apostrophe))
              else Exit 0)
           else ignored_explicit c arg splitted)
      | count_action \<Rightarrow>
          (if length splitted = 1
           then bind (store_count_value temp r) (\<lambda>r'. Return (rest, r'))
           else ignored_explicit c arg splitted)
      | store_const \<Rightarrow> store_constant c temp arg splitted rest r
      | store_true \<Rightarrow> store_constant c temp arg splitted rest r
      | store_false \<Rightarrow> store_constant c temp arg splitted rest r)"

lemma consume_values_length:
  "consume_values c temp arg n rest r = Return (rest', r') \<Longrightarrow> length rest' \<le> length rest"
proof (induction rest arbitrary: n r)
  case Nil
  then show ?case
    by (auto simp: expected_error_def handle_error_def bind_eq_Return_iff split: if_splits)
next
  case (Cons nxt rest)
  show ?case
  proof (cases "is_value_token c nxt")
    case True
    from Cons.prems True obtain r1 where
      k: "(if m_nargs temp = [] \<or> (m_num_args temp \<noteq> 0 \<and> n + 1 = m_num_args temp)
           then Return (rest, r1)
           else consume_values c temp arg (n + 1) rest r1) = Return (rest', r')"
      by (auto simp: bind_eq_Return_iff)
    show ?thesis
    proof (cases "m_nargs temp = [] \<or> (m_num_args temp \<noteq> 0 \<and> n + 1 = m_num_args temp)")
      case True
      with k show ?thesis by auto
    next
      case False
      with k have "consume_values c temp arg (n + 1) rest r1 = Return (rest', r')" by simp
      from Cons.IH[OF this] show ?thesis by simp
    qed
  next
    case False
    with Cons.prems show ?thesis
      by (auto simp: expected_error_def handle_error_def bind_eq_Return_iff split: if_splits)
  qed
qed

lemma store_values_length:
  "store_values c temp arg splitted rest r = Return (rest', r') \<Longrightarrow> length rest' \<le> length rest"
  by (auto simp: store_values_def handle_error_def bind_eq_Return_iff
           split: if_splits dest: consume_values_length)

lemma dispatch_length:
  "dispatch c temp arg splitted rest r = Return (rest', r') \<Longrightarrow> length rest' \<le> length rest"
  by (auto simp: dispatch_def store_constant_def ignored_explicit_def handle_error_def
                 bind_eq_Return_iff
           split: Action.splits if_splits dest: store_values_length)

text \<open>The state the main pass builds.\<close>

record parse_state =
  result :: result_map
  positional_values :: "string list list"
  unrecognized_args :: "string list"

text \<open>
  The \<^verbatim>\<open>for\<close> loop over \<^verbatim>\<open>parsed_arguments\<close>; the list is what is left from index \<open>i\<close>
  on. \<^verbatim>\<open>_store_positional_arguments\<close> takes the token and the value tokens that follow.
\<close>

function main_loop :: "ctx \<Rightarrow> string list \<Rightarrow> parse_state \<Rightarrow> parse_state outcome" where
  "main_loop c [] st = Return st"
| "main_loop c (tok # rest) st =
     (if c_add_help c \<and> is_value_exists tok (m_flags help_argument) then Exit 0
      else
        let splitted = split_equal tok;
            arg = (if length splitted = 2 then hd splitted else tok)
        in case get_optional_arg_by_flag c arg of
             Some temp \<Rightarrow>
               bind (dispatch c temp arg splitted rest (result st))
                 (\<lambda>(rest', r'). main_loop c rest' (st\<lparr>result := r'\<rparr>))
           | None \<Rightarrow>
               if have_negative_options c \<and> is_negative_number arg
               then main_loop c rest (st\<lparr>unrecognized_args := unrecognized_args st @ [arg]\<rparr>)
               else main_loop c (dropWhile (is_value_token c) rest)
                      (st\<lparr>positional_values := positional_values st
                            @ [tok # takeWhile (is_value_token c) rest]\<rparr>))"
  by pat_completeness auto
termination
  by (relation "measure (\<lambda>(c, toks, st). length toks)")
     (auto dest: dispatch_length intro: le_imp_less_Suc length_dropWhile_le)

subsection \<open>Positional partitioning: \<^verbatim>\<open>_match_args_partial\<close>\<close>

text \<open>
  The first loop of \<^verbatim>\<open>_match_args_partial\<close>: it moves \<open>finish\<close> over the slots from
  \<open>pos\<close> on and adds up \<open>min_args\<close>, \<open>one_args\<close> and \<open>more_args\<close>, until a slot needs
  more than the group has. \<open>sz\<close> is \<^verbatim>\<open>arguments.size()\<close>. Sizes are \<^verbatim>\<open>size_t\<close>, taken
  as natural numbers.
\<close>

fun scan_window :: "nat \<Rightarrow> Argument list \<Rightarrow> nat \<times> nat \<times> nat \<times> bool \<Rightarrow> nat \<times> nat \<times> nat \<times> bool" where
  "scan_window sz [] acc = acc"
| "scan_window sz (arg # slots) (finish, min_args, one_args, more_args) =
     (if \<not> takes_values (m_action arg)
      then scan_window sz slots (Suc finish, min_args, one_args, more_args)
      else
        let min_amount = (if m_nargs arg = [] \<or> m_nargs arg = ''+'' then 1
                          else if m_nargs arg = ''?'' \<or> m_nargs arg = ''*'' then 0
                          else unat (m_num_args arg));
            one_args' = (if m_nargs arg = ''?'' then Suc one_args else one_args);
            more_args' = (more_args \<or> m_nargs arg = ''+'' \<or> m_nargs arg = ''*'')
        in if min_args + min_amount > sz then (finish, min_args, one_args', more_args')
           else scan_window sz slots (Suc finish, min_args + min_amount, one_args', more_args'))"

text \<open>
  \<^verbatim>\<open>_store_value(arg, arguments.at(i)); ++i;\<close> on what is left of the group from index
  \<open>i\<close> on, and the same \<open>k\<close> times.
\<close>

definition store_next :: "ctx \<Rightarrow> Argument \<Rightarrow> string list \<Rightarrow> result_map
                           \<Rightarrow> (string list \<times> result_map) outcome" where
  "store_next c arg rest r =
     (case rest of
        [] \<Rightarrow> Throw out_of_range
      | v # rest' \<Rightarrow> bind (store_value c arg v r) (\<lambda>r'. Return (rest', r')))"

fun store_n :: "ctx \<Rightarrow> Argument \<Rightarrow> nat \<Rightarrow> string list \<Rightarrow> result_map
                 \<Rightarrow> (string list \<times> result_map) outcome" where
  "store_n c arg 0 rest r = Return (rest, r)"
| "store_n c arg (Suc k) rest r =
     bind (store_next c arg rest r) (\<lambda>(rest', r'). store_n c arg k rest' r')"

text \<open>
  The bodies of the four loops \<^verbatim>\<open>for ( ; pos < finish; ++pos)\<close>, one for each way the
  group is split. The state is the part of the group not yet stored, \<open>over_args\<close> and the
  result map.
\<close>

type_synonym slot_state = "string list \<times> nat \<times> result_map"

definition keep_over :: "nat \<Rightarrow> (string list \<times> result_map) outcome \<Rightarrow> slot_state outcome" where
  "keep_over over m = bind m (\<lambda>(rest, r). Return (rest, over, r))"

definition slot_exact :: "ctx \<Rightarrow> Argument \<Rightarrow> slot_state \<Rightarrow> slot_state outcome" where
  "slot_exact c arg s =
     (case s of (rest, over, r) \<Rightarrow>
        bind (is_positional_arg_stored c arg r)
          (\<lambda>(stored, r1).
             if stored then Return (rest, over, r1)
             else if m_nargs arg = [] \<or> m_nargs arg = ''+''
             then keep_over over (store_next c arg rest r1)
             else if m_nargs arg = ''?'' \<or> m_nargs arg = ''*''
             then bind (store_default_value c arg r1) (\<lambda>r2. Return (rest, over, r2))
             else keep_over over (store_n c arg (unat (m_num_args arg)) rest r1)))"

definition slot_more :: "ctx \<Rightarrow> Argument \<Rightarrow> slot_state \<Rightarrow> slot_state outcome" where
  "slot_more c arg s =
     (case s of (rest, over, r) \<Rightarrow>
        bind (is_positional_arg_stored c arg r)
          (\<lambda>(stored, r1).
             if stored then Return (rest, over, r1)
             else if m_nargs arg = [] then keep_over over (store_next c arg rest r1)
             else if m_nargs arg = ''+''
             then bind (store_next c arg rest r1)
                    (\<lambda>(rest', r2). keep_over 0 (store_n c arg over rest' r2))
             else if m_nargs arg = ''?''
             then bind (store_default_value c arg r1) (\<lambda>r2. Return (rest, over, r2))
             else if m_nargs arg = ''*''
             then (if over > 0 then keep_over 0 (store_n c arg over rest r1)
                   else bind (store_default_value c arg r1) (\<lambda>r2. Return (rest, over, r2)))
             else keep_over over (store_n c arg (unat (m_num_args arg)) rest r1)))"

definition slot_one :: "ctx \<Rightarrow> nat \<Rightarrow> Argument \<Rightarrow> slot_state \<Rightarrow> slot_state outcome" where
  "slot_one c one_args arg s =
     (case s of (rest, over, r) \<Rightarrow>
        bind (is_positional_arg_stored c arg r)
          (\<lambda>(stored, r1).
             if stored then Return (rest, over, r1)
             else if m_nargs arg = [] then keep_over over (store_next c arg rest r1)
             else if m_nargs arg = ''?''
             then (if over < one_args then keep_over (Suc over) (store_next c arg rest r1)
                   else bind (store_default_value c arg r1) (\<lambda>r2. Return (rest, over, r2)))
             else keep_over over (store_n c arg (unat (m_num_args arg)) rest r1)))"

definition slot_rest :: "ctx \<Rightarrow> Argument \<Rightarrow> slot_state \<Rightarrow> slot_state outcome" where
  "slot_rest c arg s =
     (case s of (rest, over, r) \<Rightarrow>
        bind (is_positional_arg_stored c arg r)
          (\<lambda>(stored, r1).
             if stored then Return (rest, over, r1)
             else if m_nargs arg = [] then keep_over over (store_next c arg rest r1)
             else keep_over over
                    (store_n c arg (if m_nargs arg = ''?'' then 1 else unat (m_num_args arg))
                       rest r1)))"

fun for_slots :: "(Argument \<Rightarrow> slot_state \<Rightarrow> slot_state outcome) \<Rightarrow> Argument list \<Rightarrow> slot_state
                   \<Rightarrow> slot_state outcome" where
  "for_slots body [] s = Return s"
| "for_slots body (arg # slots) s = bind (body arg s) (for_slots body slots)"

text \<open>The locals of \<^verbatim>\<open>parse_known_args\<close> that the passes over the tokens update.\<close>

record match_state =
  pos :: nat
  m_result :: result_map
  m_unrecognized_args :: "string list"

text \<open>
  The choice of \<^verbatim>\<open>_match_args_partial\<close> among its four loops: the loop body, the first
  \<open>over_args\<close>, and whether the rest of the group goes to \<open>unrecognized_args\<close>.
\<close>

definition match_plan :: "ctx \<Rightarrow> nat \<Rightarrow> nat \<times> nat \<times> nat \<times> bool
    \<Rightarrow> (Argument \<Rightarrow> slot_state \<Rightarrow> slot_state outcome) \<times> nat \<times> bool" where
  "match_plan c sz w =
     (case w of (finish, min_args, one_args, more_args) \<Rightarrow>
        if min_args = sz then (slot_exact c, 0, False)
        else if more_args then (slot_more c, sz - min_args, False)
        else if min_args + one_args \<ge> sz
        then (slot_one c one_args, min_args + one_args - sz, False)
        else (slot_rest c, 0, True))"

definition match_args_partial :: "ctx \<Rightarrow> string list \<Rightarrow> match_state \<Rightarrow> match_state outcome" where
  "match_args_partial c arguments st =
     (if pos st \<ge> length (positional c)
      then Return (st\<lparr>m_unrecognized_args := m_unrecognized_args st @ arguments\<rparr>)
      else
        let w = scan_window (length arguments) (drop (pos st) (positional c))
                  (pos st, 0, 0, False);
            finish = fst w
        in if finish = pos st
           then Return (st\<lparr>m_unrecognized_args := m_unrecognized_args st @ arguments\<rparr>)
           else
             (case match_plan c (length arguments) w of (body, over, leftover) \<Rightarrow>
                bind (for_slots body (take (finish - pos st) (drop (pos st) (positional c)))
                        (arguments, over, m_result st))
                  (\<lambda>(rest, over', r').
                     Return \<lparr> pos = finish, m_result = r',
                              m_unrecognized_args =
                                m_unrecognized_args st @ (if leftover then rest else []) \<rparr>)))"

fun match_all :: "ctx \<Rightarrow> string list list \<Rightarrow> match_state \<Rightarrow> match_state outcome" where
  "match_all c [] st = Return st"
| "match_all c (values # groups) st = bind (match_args_partial c values st) (match_all c groups)"

subsection \<open>Finalization\<close>

fun any_flag_empty :: "result_map \<Rightarrow> string list \<Rightarrow> bool outcome" where
  "any_flag_empty r [] = Return False"
| "any_flag_empty r (flag # flags) =
     (case map_of r flag of
        None \<Rightarrow> Throw out_of_range
      | Some av \<Rightarrow> if snd av = [] then Return True else any_flag_empty r flags)"

fun required_args :: "result_map \<Rightarrow> Argument list \<Rightarrow> string list outcome" where
  "required_args r [] = Return []"
| "required_args r (arg # opts) =
     (if m_required arg then
        bind (any_flag_empty r (get_argument_flags arg))
          (\<lambda>missing. bind (required_args r opts)
             (\<lambda>others. Return ((if missing then [vector_string_to_string (m_flags arg) ''/'' []]
                                 else []) @ others)))
      else required_args r opts)"

text \<open>
  The loop over the slots from \<open>pos\<close> on that the required-arguments check runs: while no
  name has been collected, constant-like slots are stored and \<^verbatim>\<open>?\<close> and \<^verbatim>\<open>*\<close> slots get
  their default.
\<close>

fun missing_positionals :: "ctx \<Rightarrow> Argument list \<Rightarrow> string \<Rightarrow> result_map
                             \<Rightarrow> (string \<times> result_map) outcome" where
  "missing_positionals c [] args r = Return (args, r)"
| "missing_positionals c (arg # slots) args r =
     (if args = [] then
        bind (is_positional_arg_stored c arg r)
          (\<lambda>(stored, r1).
             if stored then missing_positionals c slots args r1
             else if m_nargs arg = ''?'' \<or> m_nargs arg = ''*''
             then bind (store_default_value c arg r1) (missing_positionals c slots args)
             else missing_positionals c slots (args @ front_flag (m_flags arg)) r1)
      else missing_positionals c slots (args @ '', '' @ front_flag (m_flags arg)) r)"

text \<open>The last loop: an optional that holds nothing gets its default, if there is one.\<close>

definition materialize_default :: "ctx \<Rightarrow> string \<times> ArgumentValue \<Rightarrow> string \<times> ArgumentValue" where
  "materialize_default c e =
     (if snd (snd e) = [] \<and> fst (snd e) \<noteq> count_action then
        (case get_optional_arg_by_dest c (fst e) of
           None \<Rightarrow> e
         | Some argument \<Rightarrow>
             if default_arg_value c argument \<noteq> []
             then (fst e, (fst (snd e), [default_arg_value c argument]))
             else e)
      else e)"

text \<open>Class \<^verbatim>\<open>Namespace\<close>.\<close>

record Namespace =
  ns_arguments :: result_map
  ns_prefix_chars :: string

definition finalize :: "ctx \<Rightarrow> match_state \<Rightarrow> Namespace outcome" where
  "finalize c st =
     bind (required_args (m_result st) (optional c))
       (\<lambda>req.
          bind (if req \<noteq> [] \<or> pos st < length (positional c)
                then bind (missing_positionals c (drop (pos st) (positional c)) [] (m_result st))
                       (\<lambda>(args, r).
                          if args @ vector_string_to_string req '', '' [] \<noteq> []
                          then handle_error (c_prog c)
                                 (''the following arguments are required: ''
                                  @ args @ vector_string_to_string req '', '' [])
                          else Return r)
                else Return (m_result st))
            (\<lambda>r.
               if m_unrecognized_args st \<noteq> []
               then handle_error (c_prog c)
                      (''unrecognized arguments: ''
                       @ vector_string_to_string (m_unrecognized_args st) '' '' [])
               else Return \<lparr> ns_arguments = map (materialize_default c) r,
                             ns_prefix_chars = c_prefix_chars c \<rparr>))"

subsection \<open>\<^verbatim>\<open>parse_known_args\<close> and \<^verbatim>\<open>parse_args\<close>\<close>

text \<open>
  The file system that \<^verbatim>\<open>convert_arg_line_to_args\<close> reads: the lines of a file, or
  \<open>None\<close> when it cannot be opened.
\<close>

type_synonym files = "string \<Rightarrow> string list option"

definition convert_arg_line_to_args :: "string \<Rightarrow> files \<Rightarrow> string \<Rightarrow> string list outcome" where
  "convert_arg_line_to_args prog fs file =
     (case fs file of
        None \<Rightarrow> handle_error prog (''[Errno 2] No such file or directory: ''
                                   @ apostrophe @ file @ apostrophe)
      | Some lines \<Rightarrow> Return lines)"

fun expand_files :: "string \<Rightarrow> string \<Rightarrow> files \<Rightarrow> string list \<Rightarrow> string list outcome" where
  "expand_files prog fromfile fs [] = Return []"
| "expand_files prog fromfile fs (arg # arguments) =
     bind (if is_string_contains_char fromfile (front_char arg)
           then (if arg = [] then Throw out_of_range
                 else convert_arg_line_to_args prog fs (drop 1 arg))
           else Return [arg])
       (\<lambda>ts. bind (expand_files prog fromfile fs arguments) (\<lambda>rest. Return (ts @ rest)))"

definition make_ctx :: "ArgumentParser \<Rightarrow> ctx" where
  "make_ctx p =
     \<lparr> c_prog = m_prog (cfg p), c_prefix_chars = m_prefix_chars (cfg p),
       c_argument_default = m_argument_default (cfg p), c_add_help = m_add_help (cfg p),
       c_allow_abbrev = m_allow_abbrev (cfg p),
       positional = positional_arguments True p, optional = optional_arguments True p,
       have_negative_options =
         is_negative_numbers_presented (m_prefix_chars (cfg p)) (optional_arguments True p) \<rparr>"

text \<open>The result skeleton, then abbreviations and the main pass: what the tokens leave.\<close>

definition main_pass :: "ctx \<Rightarrow> string list \<Rightarrow> parse_state outcome" where
  "main_pass c parsed_arguments =
     bind (create_result (positional c) [])
       (\<lambda>r0. bind (create_result (optional c) r0)
          (\<lambda>r1. bind (check_abbreviations c r1 parsed_arguments)
             (\<lambda>ts. main_loop c ts
                      \<lparr> result = r1, positional_values = [], unrecognized_args = [] \<rparr>)))"

definition match_pass :: "ctx \<Rightarrow> parse_state \<Rightarrow> match_state outcome" where
  "match_pass c st =
     match_all c (positional_values st)
       \<lparr> pos = 0, m_result = result st, m_unrecognized_args = unrecognized_args st \<rparr>"

definition parse_known_args :: "ArgumentParser \<Rightarrow> files \<Rightarrow> string list \<Rightarrow> Namespace outcome" where
  "parse_known_args p fs parsed_arguments =
     bind (if m_fromfile_prefix_chars (cfg p) \<noteq> []
           then expand_files (m_prog (cfg p)) (m_fromfile_prefix_chars (cfg p)) fs parsed_arguments
           else Return parsed_arguments)
       (\<lambda>ts. bind (validate_arguments (positional_arguments True p))
          (\<lambda>u. bind (validate_arguments (optional_arguments True p))
             (\<lambda>u. bind (main_pass (make_ctx p) ts)
                (\<lambda>st. bind (match_pass (make_ctx p) st) (finalize (make_ctx p))))))"

text \<open>
  \<^verbatim>\<open>parse_args\<close>: with \<open>m_exit_on_error\<close> every exception is printed and the process ends
  with \<^verbatim>\<open>exit(1)\<close>; without it the exception reaches the caller.
\<close>

definition parse_args :: "ArgumentParser \<Rightarrow> files \<Rightarrow> string list \<Rightarrow> Namespace outcome" where
  "parse_args p fs parsed_arguments =
     (if m_exit_on_error (cfg p) then
        (case parse_known_args p fs parsed_arguments of
           Throw e \<Rightarrow> Exit 1
         | other \<Rightarrow> other)
      else parse_known_args p fs parsed_arguments)"

subsection \<open>Reading a Namespace\<close>

text \<open>
  \<^verbatim>\<open>Namespace::data\<close>: the exact key, or else the first entry, in the key order of the
  \<^verbatim>\<open>std::map\<close>, whose key is option-shaped and has the wanted flag name.
\<close>

fun least_entry :: "(string \<times> 'v) list \<Rightarrow> (string \<times> 'v) option" where
  "least_entry [] = None"
| "least_entry (e # es) =
     (case least_entry es of
        None \<Rightarrow> Some e
      | Some e' \<Rightarrow> if fst e \<le> fst e' then Some e else Some e')"

definition data :: "Namespace \<Rightarrow> string \<Rightarrow> ArgumentValue outcome" where
  "data ns key =
     (case map_of (ns_arguments ns) key of
        Some av \<Rightarrow> Return av
      | None \<Rightarrow>
          (case least_entry
                  (filter (\<lambda>e. is_optional_argument (fst e) (ns_prefix_chars ns)
                                \<and> flag_name (fst e) = key) (ns_arguments ns)) of
             Some e \<Rightarrow> Return (snd e)
           | None \<Rightarrow> Throw (AttributeError (apostrophe @ ''Namespace' object has no attribute ''
                                            @ apostrophe @ key @ apostrophe))))"

text \<open>\<^verbatim>\<open>get<std::vector<std::string>>(key)\<close>: the values with matching quotes removed.\<close>

definition get_strings :: "Namespace \<Rightarrow> string \<Rightarrow> string list outcome" where
  "get_strings ns key = bind (data ns key) (\<lambda>av. Return (map remove_quotes (snd av)))"

section \<open>Footprints of the store operations\<close>

text \<open>
  \<open>same_outside K r r'\<close>: the map \<open>r'\<close> has the keys and action tags of \<open>r\<close> and the
  same entries outside the keys \<open>K\<close>.
\<close>

definition same_outside :: "string set \<Rightarrow> result_map \<Rightarrow> result_map \<Rightarrow> bool" where
  "same_outside K r r' =
     (map fst r' = map fst r
      \<and> (\<forall>k. k \<notin> K \<longrightarrow> map_of r' k = map_of r k)
      \<and> (\<forall>k. map_option fst (map_of r' k) = map_option fst (map_of r k)))"

text \<open>\<open>all_values Q K r\<close>: every value sequence stored under a key of \<open>K\<close> satisfies \<open>Q\<close>.\<close>

definition all_values :: "(string list \<Rightarrow> bool) \<Rightarrow> string set \<Rightarrow> result_map \<Rightarrow> bool" where
  "all_values Q K r = (\<forall>k\<in>K. \<forall>av. map_of r k = Some av \<longrightarrow> Q (snd av))"

lemma same_outside_refl [simp]: "same_outside K r r"
  by (simp add: same_outside_def)

lemma same_outside_trans:
  "same_outside K r r' \<Longrightarrow> same_outside K' r' r'' \<Longrightarrow> same_outside (K \<union> K') r r''"
  by (simp add: same_outside_def)

lemma same_outside_mono: "same_outside K r r' \<Longrightarrow> K \<subseteq> K' \<Longrightarrow> same_outside K' r r'"
  by (auto simp: same_outside_def)

lemma same_outside_trans_same:
  "same_outside K r r' \<Longrightarrow> same_outside K r' r'' \<Longrightarrow> same_outside K r r''"
  using same_outside_trans[of K r r' K r''] by simp

lemma same_outside_at: "same_outside K r r' \<Longrightarrow> k \<notin> K \<Longrightarrow> map_of r' k = map_of r k"
  by (simp add: same_outside_def)

lemma same_outside_tag:
  "same_outside K r r' \<Longrightarrow> map_of r k = Some (a, vs) \<Longrightarrow> \<exists>vs'. map_of r' k = Some (a, vs')"
proof -
  assume s: "same_outside K r r'" and m: "map_of r k = Some (a, vs)"
  from s have "map_option fst (map_of r' k) = map_option fst (map_of r k)"
    by (simp add: same_outside_def)
  with m show ?thesis by (cases "map_of r' k") auto
qed

lemma all_values_frame:
  "same_outside K' r r' \<Longrightarrow> K \<inter> K' = {} \<Longrightarrow> all_values Q K r \<Longrightarrow> all_values Q K r'"
  by (auto simp: all_values_def same_outside_def)

lemma map_of_update_alist:
  "map_of (AList.update k v r) k' = (if k' = k then Some v else map_of r k')"
  by (simp add: update_conv')

lemma keys_update_present:
  "map_of r k = Some v0 \<Longrightarrow> map fst (AList.update k v r) = map fst r"
  by (simp add: update_keys map_of_eq_None_iff[symmetric])

lemma for_each_flag_same_outside:
  "for_each_flag f ks r = Return r' \<Longrightarrow> same_outside (set ks) r r'"
proof (induction ks arbitrary: r)
  case Nil
  then show ?case by simp
next
  case (Cons k ks)
  from Cons.prems obtain av where av: "map_of r k = Some av"
    and rec: "for_each_flag f ks (AList.update k (fst av, f (snd av)) r) = Return r'"
    by (auto split: option.splits)
  have step: "same_outside {k} r (AList.update k (fst av, f (snd av)) r)"
    using av by (auto simp: same_outside_def map_of_update_alist keys_update_present)
  from same_outside_trans[OF step Cons.IH[OF rec]] show ?case by simp
qed

lemma for_each_flag_all_values:
  assumes "for_each_flag f ks r = Return r'" and "\<And>vs. Q vs \<Longrightarrow> Q (f vs)"
    and "all_values Q K r"
  shows "all_values Q K r'"
  using assms(1,3)
proof (induction ks arbitrary: r)
  case Nil
  then show ?case by simp
next
  case (Cons k ks)
  from Cons.prems obtain av where av: "map_of r k = Some av"
    and rec: "for_each_flag f ks (AList.update k (fst av, f (snd av)) r) = Return r'"
    by (auto split: option.splits)
  have "k \<in> K \<Longrightarrow> Q (f (snd av))"
  proof -
    assume "k \<in> K"
    with Cons.prems(2) av have "Q (snd av)" by (cases av) (auto simp: all_values_def)
    then show ?thesis by (rule assms(2))
  qed
  then have "all_values Q K (AList.update k (fst av, f (snd av)) r)"
    using Cons.prems(2) by (auto simp: all_values_def map_of_update_alist)
  from Cons.IH[OF rec this] show ?case .
qed

lemma for_each_flag_at:
  "for_each_flag f ks r = Return r' \<Longrightarrow> distinct ks \<Longrightarrow> k \<in> set ks \<Longrightarrow>
     \<exists>a vs. map_of r k = Some (a, vs) \<and> map_of r' k = Some (a, f vs)"
proof (induction ks arbitrary: r)
  case Nil
  then show ?case by simp
next
  case (Cons k0 ks)
  from Cons.prems obtain av where av: "map_of r k0 = Some av"
    and rec: "for_each_flag f ks (AList.update k0 (fst av, f (snd av)) r) = Return r'"
    by (auto split: option.splits)
  show ?case
  proof (cases "k = k0")
    case True
    with Cons.prems have "k \<notin> set ks" by simp
    with for_each_flag_same_outside[OF rec]
    have "map_of r' k = map_of (AList.update k0 (fst av, f (snd av)) r) k"
      by (simp add: same_outside_def)
    with True av show ?thesis by (cases av) (simp add: map_of_update_alist)
  next
    case False
    with Cons.prems have "k \<in> set ks" "distinct ks" by simp_all
    from Cons.IH[OF rec this(2) this(1)] False show ?thesis
      by (simp add: map_of_update_alist)
  qed
qed

lemma for_each_flag_returns:
  "\<forall>k\<in>set ks. map_of r k \<noteq> None \<Longrightarrow> \<exists>r'. for_each_flag f ks r = Return r'"
proof (induction ks arbitrary: r)
  case Nil
  then show ?case by simp
next
  case (Cons k ks)
  then obtain av where av: "map_of r k = Some av" by auto
  have "\<forall>k'\<in>set ks. map_of (AList.update k (fst av, f (snd av)) r) k' \<noteq> None"
    using Cons.prems by (simp add: map_of_update_alist)
  from Cons.IH[OF this] av show ?case by simp
qed

subsection \<open>The operations on one argument\<close>

lemma validate_argument_value_Return:
  "validate_argument_value c arg v = Return u \<Longrightarrow>
     m_choices arg = [] \<or> remove_quotes v \<in> set (m_choices arg)"
  by (auto simp: validate_argument_value_def handle_error_def is_value_exists_def
           split: if_splits)

lemma store_value_same_outside:
  "store_value c arg v r = Return r' \<Longrightarrow> same_outside (set (get_argument_flags arg)) r r'"
  by (auto simp: store_value_def bind_eq_Return_iff dest: for_each_flag_same_outside)

lemma store_value_valid:
  "store_value c arg v r = Return r' \<Longrightarrow>
     m_choices arg = [] \<or> remove_quotes v \<in> set (m_choices arg)"
  by (auto simp: store_value_def bind_eq_Return_iff dest: validate_argument_value_Return)

lemma store_value_all_values:
  assumes "store_value c arg v r = Return r'" and "\<And>vs. Q vs \<Longrightarrow> Q (vs @ [v])"
    and "all_values Q K r"
  shows "all_values Q K r'"
  using assms
  by (auto simp: store_value_def bind_eq_Return_iff intro: for_each_flag_all_values)

lemma store_value_at:
  "store_value c arg v r = Return r' \<Longrightarrow> distinct (get_argument_flags arg) \<Longrightarrow>
     k \<in> set (get_argument_flags arg) \<Longrightarrow>
     \<exists>a vs. map_of r k = Some (a, vs) \<and> map_of r' k = Some (a, vs @ [v])"
  by (auto simp: store_value_def bind_eq_Return_iff dest: for_each_flag_at)

lemma store_default_value_same_outside:
  "store_default_value c arg r = Return r' \<Longrightarrow> same_outside (set (get_argument_flags arg)) r r'"
  by (auto simp: store_default_value_def split: if_splits dest: for_each_flag_same_outside)

lemma store_const_value_same_outside:
  "store_const_value arg r = Return r' \<Longrightarrow> same_outside (set (get_argument_flags arg)) r r'"
  by (auto simp: store_const_value_def dest: for_each_flag_same_outside)

lemma store_count_value_same_outside:
  "store_count_value arg r = Return r' \<Longrightarrow> same_outside (set (get_argument_flags arg)) r r'"
  by (auto simp: store_count_value_def dest: for_each_flag_same_outside)

lemma append_const_loop_same_outside:
  "append_const_loop c arg ks r = Return r' \<Longrightarrow> same_outside (set ks) r r'"
proof (induction ks arbitrary: r)
  case Nil
  then show ?case by simp
next
  case (Cons k ks)
  from Cons.prems obtain av where av: "map_of r k = Some av"
    and rec: "append_const_loop c arg ks (AList.update k (fst av, snd av @ [m_const arg]) r)
                = Return r'"
    by (auto simp: handle_error_def split: option.splits if_splits)
  have step: "same_outside {k} r (AList.update k (fst av, snd av @ [m_const arg]) r)"
    using av by (auto simp: same_outside_def map_of_update_alist keys_update_present)
  from same_outside_trans[OF step Cons.IH[OF rec]] show ?case by simp
qed

lemma append_const_value_same_outside:
  "append_const_value c arg r = Return r' \<Longrightarrow> same_outside (set (get_argument_flags arg)) r r'"
  by (simp add: append_const_value_def append_const_loop_same_outside)

lemma is_positional_arg_stored_same_outside:
  "is_positional_arg_stored c arg r = Return (b, r') \<Longrightarrow>
     same_outside (set (get_argument_flags arg)) r r'"
  by (auto simp: is_positional_arg_stored_def bind_eq_Return_iff split: if_splits
           dest: store_const_value_same_outside append_const_value_same_outside
                 store_count_value_same_outside)

lemma is_positional_arg_stored_takes_values:
  "takes_values (m_action arg) \<Longrightarrow> is_positional_arg_stored c arg r = Return (False, r)"
  by (auto simp: is_positional_arg_stored_def takes_values_def)

subsection \<open>The result skeleton\<close>

lemma create_result_flags_eq:
  "create_result_flags a ks r = Return r' \<Longrightarrow>
     r' = r @ map (\<lambda>k. (k, (a, []))) ks \<and> distinct ks \<and> set ks \<inter> fst ` set r = {}"
proof (induction ks arbitrary: r)
  case Nil
  then show ?case by simp
next
  case (Cons k ks)
  from Cons.prems have none: "map_of r k = None"
    and rec: "create_result_flags a ks (r @ [(k, (a, []))]) = Return r'"
    by (auto split: if_splits)
  from Cons.IH[OF rec] none show ?case
    by (auto simp: map_of_eq_None_iff)
qed

text \<open>The entries that \<^verbatim>\<open>_create_result\<close> adds for a list of arguments.\<close>

definition skeleton :: "Argument list \<Rightarrow> result_map" where
  "skeleton args =
     concat (map (\<lambda>arg. map (\<lambda>k. (k, (m_action arg, []))) (get_argument_flags arg)) args)"

lemma skeleton_keys: "map fst (skeleton args) = concat (map get_argument_flags args)"
  by (induction args) (simp_all add: skeleton_def comp_def)

lemma create_result_eq:
  "create_result args r = Return r' \<Longrightarrow>
     r' = r @ skeleton args \<and> distinct (concat (map get_argument_flags args))
     \<and> set (concat (map get_argument_flags args)) \<inter> fst ` set r = {}"
proof (induction args arbitrary: r)
  case Nil
  then show ?case by (simp add: skeleton_def)
next
  case (Cons arg args)
  from Cons.prems obtain r1 where
    r1: "create_result_flags (m_action arg) (get_argument_flags arg) r = Return r1"
    and rec: "create_result args r1 = Return r'"
    by (auto simp: bind_eq_Return_iff)
  note f = create_result_flags_eq[OF r1]
  note g = Cons.IH[OF rec]
  have r1_eq: "r1 = r @ map (\<lambda>k. (k, (m_action arg, []))) (get_argument_flags arg)"
    using f by simp
  have keys1: "fst ` set r1 = fst ` set r \<union> set (get_argument_flags arg)"
    by (auto simp: r1_eq image_Un image_image)
  have "r' = r @ skeleton (arg # args)"
    using g by (simp add: r1_eq skeleton_def)
  moreover have "distinct (concat (map get_argument_flags (arg # args)))"
    using f g keys1 by auto
  moreover have "set (concat (map get_argument_flags (arg # args))) \<inter> fst ` set r = {}"
    using f g keys1 by auto
  ultimately show ?case by blast
qed

lemma distinct_concat_disjoint:
  "distinct (concat (map f xs)) \<Longrightarrow> x \<in> set xs \<Longrightarrow> y \<in> set xs \<Longrightarrow> x \<noteq> y \<Longrightarrow>
     set (f x) \<inter> set (f y) = {}"
  by (induction xs) auto

lemma distinct_concat_each:
  "distinct (concat (map f xs)) \<Longrightarrow> x \<in> set xs \<Longrightarrow> distinct (f x)"
  by (induction xs) auto

lemma map_of_constant_entries:
  "k \<in> set ks \<Longrightarrow> map_of (map (\<lambda>k. (k, v)) ks) k = Some v"
  by (induction ks) auto

lemma map_of_skeleton:
  "distinct (concat (map get_argument_flags args)) \<Longrightarrow> arg \<in> set args \<Longrightarrow>
     k \<in> set (get_argument_flags arg) \<Longrightarrow> map_of (skeleton args) k = Some (m_action arg, [])"
proof (induction args)
  case Nil
  then show ?case by simp
next
  case (Cons a args)
  have sk: "skeleton (a # args) = map (\<lambda>k. (k, (m_action a, []))) (get_argument_flags a) @ skeleton args"
    by (simp add: skeleton_def)
  show ?case
  proof (cases "k \<in> set (get_argument_flags a)")
    case True
    then have here: "map_of (map (\<lambda>k. (k, (m_action a, []::string list))) (get_argument_flags a)) k
                = Some (m_action a, [])"
      by (rule map_of_constant_entries)
    from True Cons.prems have "arg = a \<or> arg \<in> set args" by simp
    then have "m_action arg = m_action a"
    proof
      assume "arg = a" then show ?thesis by simp
    next
      assume "arg \<in> set args"
      with Cons.prems(1,3) True have False by auto
      then show ?thesis ..
    qed
    then show ?thesis by (simp add: sk map_add_def here)
  next
    case False
    then have "map_of (map (\<lambda>k. (k, (m_action a, []::string list))) (get_argument_flags a)) k = None"
      by (simp add: map_of_eq_None_iff image_image)
    moreover from False Cons.prems have "arg \<in> set args" by auto
    ultimately show ?thesis using Cons by (simp add: sk map_add_def)
  qed
qed

section \<open>The main pass, token by token\<close>

lemma bind_assoc: "bind (bind m f) g = bind m (\<lambda>x. bind (f x) g)"
  by (cases m) auto

lemma bind_Return_right: "bind m Return = m"
  by (cases m) auto

text \<open>The name that the main loop looks up for a token: what stands before \<^verbatim>\<open>=\<close>.\<close>

definition option_name :: "string \<Rightarrow> string" where
  "option_name tok = (if length (split_equal tok) = 2 then hd (split_equal tok) else tok)"

lemma main_loop_Cons:
  "main_loop c (tok # rest) st =
     (if c_add_help c \<and> tok \<in> set (m_flags help_argument) then Exit 0
      else case get_optional_arg_by_flag c (option_name tok) of
             Some temp \<Rightarrow>
               bind (dispatch c temp (option_name tok) (split_equal tok) rest (result st))
                 (\<lambda>(rest', r'). main_loop c rest' (st\<lparr>result := r'\<rparr>))
           | None \<Rightarrow>
               if have_negative_options c \<and> is_negative_number (option_name tok)
               then main_loop c rest
                      (st\<lparr>unrecognized_args := unrecognized_args st @ [option_name tok]\<rparr>)
               else main_loop c (dropWhile (is_value_token c) rest)
                      (st\<lparr>positional_values := positional_values st
                            @ [tok # takeWhile (is_value_token c) rest]\<rparr>))"
  by (auto simp: Let_def option_name_def is_value_exists_def split: option.splits)

declare main_loop.simps(2) [simp del]

lemma get_optional_arg_by_flag_Some:
  "get_optional_arg_by_flag c key = Some temp \<Longrightarrow> temp \<in> set (optional c) \<and> key \<in> set (m_flags temp)"
  by (auto simp: get_optional_arg_by_flag_def find_Some_iff)

text \<open>
  What an option takes from the tokens after it is a run of value tokens: the list it
  returns is what follows that run.
\<close>

lemma consume_values_run:
  "consume_values c temp arg n rest r = Return (rest', r') \<Longrightarrow>
     \<exists>cs. rest = cs @ rest' \<and> list_all (is_value_token c) cs"
proof (induction rest arbitrary: n r)
  case Nil
  then show ?case
    by (auto simp: expected_error_def handle_error_def bind_eq_Return_iff split: if_splits)
next
  case (Cons nxt rest)
  show ?case
  proof (cases "is_value_token c nxt")
    case True
    from Cons.prems True obtain r1 where
      k: "(if m_nargs temp = [] \<or> (m_num_args temp \<noteq> 0 \<and> n + 1 = m_num_args temp)
           then Return (rest, r1)
           else consume_values c temp arg (n + 1) rest r1) = Return (rest', r')"
      by (auto simp: bind_eq_Return_iff)
    show ?thesis
    proof (cases "m_nargs temp = [] \<or> (m_num_args temp \<noteq> 0 \<and> n + 1 = m_num_args temp)")
      case stop: True
      with k have "rest' = rest" by auto
      with True have "nxt # rest = [nxt] @ rest' \<and> list_all (is_value_token c) [nxt]" by simp
      then show ?thesis by blast
    next
      case False
      with k have "consume_values c temp arg (n + 1) rest r1 = Return (rest', r')" by simp
      from Cons.IH[OF this] obtain cs where "rest = cs @ rest'" "list_all (is_value_token c) cs"
        by blast
      with True have "nxt # rest = (nxt # cs) @ rest' \<and> list_all (is_value_token c) (nxt # cs)"
        by simp
      then show ?thesis by blast
    qed
  next
    case False
    with Cons.prems have "rest' = nxt # rest"
      by (auto simp: expected_error_def handle_error_def bind_eq_Return_iff split: if_splits)
    then have "nxt # rest = [] @ rest' \<and> list_all (is_value_token c) []" by simp
    then show ?thesis by blast
  qed
qed

lemma dispatch_run:
  "dispatch c temp arg splitted rest r = Return (rest', r') \<Longrightarrow>
     \<exists>cs. rest = cs @ rest' \<and> list_all (is_value_token c) cs"
proof -
  assume d: "dispatch c temp arg splitted rest r = Return (rest', r')"
  have triv: "rest' = rest \<Longrightarrow> \<exists>cs. rest = cs @ rest' \<and> list_all (is_value_token c) cs"
  proof -
    assume "rest' = rest"
    then have "rest = [] @ rest' \<and> list_all (is_value_token c) []" by simp
    then show ?thesis by blast
  qed
  have sv: "\<And>r0. store_values c temp arg splitted rest r0 = Return (rest', r') \<Longrightarrow>
              \<exists>cs. rest = cs @ rest' \<and> list_all (is_value_token c) cs"
    using triv
    by (auto simp: store_values_def handle_error_def bind_eq_Return_iff
             split: if_splits dest: consume_values_run)
  from d show ?thesis
    using triv sv
    by (cases "m_action temp")
       (auto simp: dispatch_def store_constant_def ignored_explicit_def handle_error_def
                   bind_eq_Return_iff split: if_splits)
qed

lemma dispatch_subset:
  "dispatch c temp arg splitted rest r = Return (rest', r') \<Longrightarrow> set rest' \<subseteq> set rest"
  using dispatch_run by fastforce

text \<open>
  A token that is not a value token ends every run: the tokens before it are processed as
  if the list ended there.
\<close>

lemma consume_values_append:
  assumes "\<not> is_value_token c t"
  shows "consume_values c temp arg n (cs @ t # rest) r =
           bind (consume_values c temp arg n cs r) (\<lambda>(rest', r'). Return (rest' @ t # rest, r'))"
proof (induction cs arbitrary: n r)
  case Nil
  show ?case
    using assms
    by (cases "store_value c temp (m_const temp) r")
       (auto simp: expected_error_def handle_error_def)
next
  case (Cons nxt cs)
  show ?case
  proof (cases "is_value_token c nxt")
    case True
    show ?thesis
    proof (cases "store_value c temp nxt r")
      case (Return r1)
      with True show ?thesis by (simp add: Cons.IH)
    qed (simp_all add: True)
  next
    case False
    then show ?thesis
      by (cases "store_value c temp (m_const temp) r")
         (auto simp: expected_error_def handle_error_def)
  qed
qed

lemma store_values_append:
  assumes "\<not> is_value_token c t"
  shows "store_values c temp arg splitted (cs @ t # rest) r =
           bind (store_values c temp arg splitted cs r)
             (\<lambda>(rest', r'). Return (rest' @ t # rest, r'))"
  by (simp add: store_values_def consume_values_append[OF assms] handle_error_def bind_assoc)

lemma store_values_append_fun:
  assumes "\<not> is_value_token c t"
  shows "store_values c temp arg splitted (cs @ t # rest) =
           (\<lambda>r. bind (store_values c temp arg splitted cs r)
                  (\<lambda>(rest', r'). Return (rest' @ t # rest, r')))"
  by (rule ext) (rule store_values_append[OF assms])

lemma dispatch_append:
  assumes "\<not> is_value_token c t"
  shows "dispatch c temp arg splitted (cs @ t # rest) r =
           bind (dispatch c temp arg splitted cs r)
             (\<lambda>(rest', r'). Return (rest' @ t # rest, r'))"
  by (cases "m_action temp")
     (simp_all add: dispatch_def store_values_append[OF assms]
        store_values_append_fun[OF assms] store_constant_def
        ignored_explicit_def handle_error_def bind_assoc)

lemma takeWhile_before_stop:
  "\<not> P t \<Longrightarrow> takeWhile P (cs @ t # rest) = takeWhile P cs"
  by (induction cs) auto

lemma dropWhile_before_stop:
  "\<not> P t \<Longrightarrow> dropWhile P (cs @ t # rest) = dropWhile P cs @ t # rest"
  by (induction cs) auto

lemma main_loop_append:
  assumes "\<not> is_value_token c t"
  shows "main_loop c (pre @ t # rest) st = bind (main_loop c pre st) (main_loop c (t # rest))"
proof (induction pre arbitrary: st rule: length_induct)
  case (1 pre)
  show ?case
  proof (cases pre)
    case Nil
    then show ?thesis by simp
  next
    case (Cons tok rest0)
    show ?thesis
    proof (cases "c_add_help c \<and> tok \<in> set (m_flags help_argument)")
      case True
      then show ?thesis by (simp add: Cons main_loop_Cons)
    next
      case nohelp: False
      show ?thesis
      proof (cases "get_optional_arg_by_flag c (option_name tok)")
        case None
        have shorter: "length rest0 < length pre"
          "length (dropWhile (is_value_token c) rest0) < length pre"
          using Cons length_dropWhile_le[of "is_value_token c" rest0] by simp_all
        show ?thesis
          using nohelp None assms 1[rule_format, OF shorter(1)] 1[rule_format, OF shorter(2)]
          by (auto simp: Cons main_loop_Cons[of c tok] takeWhile_before_stop
                dropWhile_before_stop)
      next
        case (Some temp)
        let ?d = "dispatch c temp (option_name tok) (split_equal tok) rest0 (result st)"
        show ?thesis
        proof (cases ?d)
          case (Return x)
          obtain rest' r' where x: "x = (rest', r')" by (cases x) auto
          from Return x have "?d = Return (rest', r')" by simp
          from dispatch_length[OF this] Cons
          have "length rest' < length pre" by simp
          from 1[rule_format, OF this]
          have "main_loop c (rest' @ t # rest) (st\<lparr>result := r'\<rparr>)
                  = bind (main_loop c rest' (st\<lparr>result := r'\<rparr>)) (main_loop c (t # rest))" .
          with nohelp Some Return x show ?thesis
            by (auto simp: Cons main_loop_Cons[of c tok] dispatch_append[OF assms])
        next
          case (Throw e)
          with nohelp Some show ?thesis
            by (auto simp: Cons main_loop_Cons[of c tok] dispatch_append[OF assms])
        next
          case (Exit n)
          with nohelp Some show ?thesis
            by (auto simp: Cons main_loop_Cons[of c tok] dispatch_append[OF assms])
        next
          case Crash
          with nohelp Some show ?thesis
            by (auto simp: Cons main_loop_Cons[of c tok] dispatch_append[OF assms])
        qed
      qed
    qed
  qed
qed

text \<open>
  A property of the result map that every dispatch from one of the tokens keeps holds after
  the main pass.
\<close>

lemma main_loop_invariant:
  assumes "main_loop c toks st = Return st'" and "P (result st)"
    and step: "\<And>tok temp rest r rest' r'.
       tok \<in> set toks \<Longrightarrow> get_optional_arg_by_flag c (option_name tok) = Some temp \<Longrightarrow> P r \<Longrightarrow>
       dispatch c temp (option_name tok) (split_equal tok) rest r = Return (rest', r') \<Longrightarrow> P r'"
  shows "P (result st')"
  using assms(1,2) step
proof (induction toks arbitrary: st rule: length_induct)
  case (1 toks)
  show ?case
  proof (cases toks)
    case Nil
    with 1 show ?thesis by simp
  next
    case (Cons tok rest0)
    from 1(2) Cons have run: "main_loop c (tok # rest0) st = Return st'" by simp
    then have nohelp: "\<not> (c_add_help c \<and> tok \<in> set (m_flags help_argument))"
      by (auto simp: main_loop_Cons)
    show ?thesis
    proof (cases "get_optional_arg_by_flag c (option_name tok)")
      case None
      let ?st1 = "st\<lparr>unrecognized_args := unrecognized_args st @ [option_name tok]\<rparr>"
      let ?st2 = "st\<lparr>positional_values := positional_values st
                        @ [tok # takeWhile (is_value_token c) rest0]\<rparr>"
      have sub: "set rest0 \<subseteq> set toks" "set (dropWhile (is_value_token c) rest0) \<subseteq> set toks"
        using Cons set_dropWhileD[of _ "is_value_token c" rest0] by auto
      have shorter: "length rest0 < length toks"
        "length (dropWhile (is_value_token c) rest0) < length toks"
        using Cons length_dropWhile_le[of "is_value_token c" rest0] by simp_all
      from run nohelp None
      have "main_loop c rest0 ?st1 = Return st'
            \<or> main_loop c (dropWhile (is_value_token c) rest0) ?st2 = Return st'"
        by (auto simp: main_loop_Cons split: if_splits)
      then show ?thesis
      proof
        assume r: "main_loop c rest0 ?st1 = Return st'"
        show ?thesis
          by (rule 1(1)[rule_format, OF shorter(1) r]) (use 1(3) 1(4) sub in auto)
      next
        assume r: "main_loop c (dropWhile (is_value_token c) rest0) ?st2 = Return st'"
        show ?thesis
          by (rule 1(1)[rule_format, OF shorter(2) r]) (use 1(3) 1(4) sub in auto)
      qed
    next
      case (Some temp)
      from run nohelp Some obtain rest' r' where
        d: "dispatch c temp (option_name tok) (split_equal tok) rest0 (result st)
              = Return (rest', r')"
        and r: "main_loop c rest' (st\<lparr>result := r'\<rparr>) = Return st'"
        by (auto simp: main_loop_Cons bind_eq_Return_iff)
      have tok: "tok \<in> set toks" using Cons by simp
      from 1(4)[OF tok Some 1(3) d] have P: "P (result (st\<lparr>result := r'\<rparr>))" by simp
      from dispatch_length[OF d] Cons have shorter: "length rest' < length toks" by simp
      from dispatch_subset[OF d] Cons have sub: "set rest' \<subseteq> set toks" by auto
      show ?thesis
        by (rule 1(1)[rule_format, OF shorter r P]) (use 1(4) sub in blast)
    qed
  qed
qed

lemma main_loop_Return_append:
  assumes "main_loop c (pre @ t # rest) st = Return st'" and "\<not> is_value_token c t"
  shows "\<exists>st1. main_loop c pre st = Return st1 \<and> main_loop c (t # rest) st1 = Return st'"
  using assms by (simp add: main_loop_append bind_eq_Return_iff)

section \<open>Properties kept by the passes\<close>

text \<open>
  \<open>kept_by c arg P\<close>: each of the operations that write the result map for the argument
  \<open>arg\<close> keeps the property \<open>P\<close> of the map.
\<close>

definition constant_action :: "Action \<Rightarrow> bool" where
  "constant_action a = (a = store_const \<or> a = store_true \<or> a = store_false)"

definition stored_action :: "Action \<Rightarrow> bool" where
  "stored_action a = (constant_action a \<or> a = append_const \<or> a = count_action)"

definition kept_by :: "ctx \<Rightarrow> Argument \<Rightarrow> (result_map \<Rightarrow> bool) \<Rightarrow> bool" where
  "kept_by c arg P =
     (\<forall>r r'. P r \<longrightarrow>
        ((\<not> stored_action (m_action arg) \<and> (\<exists>v. store_value c arg v r = Return r'))
         \<or> store_default_value c arg r = Return r'
         \<or> (constant_action (m_action arg) \<and> store_const_value arg r = Return r')
         \<or> (m_action arg = append_const \<and> append_const_value c arg r = Return r')
         \<or> (m_action arg = count_action \<and> store_count_value arg r = Return r')
         \<or> (m_action arg = store
             \<and> for_each_flag (\<lambda>vs. []) (get_argument_flags arg) r = Return r')) \<longrightarrow> P r')"


lemma kept_by_store_value:
  "kept_by c arg P \<Longrightarrow> \<not> stored_action (m_action arg) \<Longrightarrow> P r \<Longrightarrow>
     store_value c arg v r = Return r' \<Longrightarrow> P r'"
  unfolding kept_by_def by blast

lemma kept_by_store_default_value:
  "kept_by c arg P \<Longrightarrow> P r \<Longrightarrow> store_default_value c arg r = Return r' \<Longrightarrow> P r'"
  unfolding kept_by_def by blast

lemma kept_by_store_const_value:
  "kept_by c arg P \<Longrightarrow> constant_action (m_action arg) \<Longrightarrow> P r \<Longrightarrow>
     store_const_value arg r = Return r' \<Longrightarrow> P r'"
  unfolding kept_by_def by blast

lemma kept_by_append_const_value:
  "kept_by c arg P \<Longrightarrow> m_action arg = append_const \<Longrightarrow> P r \<Longrightarrow>
     append_const_value c arg r = Return r' \<Longrightarrow> P r'"
  unfolding kept_by_def by blast

lemma kept_by_store_count_value:
  "kept_by c arg P \<Longrightarrow> m_action arg = count_action \<Longrightarrow> P r \<Longrightarrow>
     store_count_value arg r = Return r' \<Longrightarrow> P r'"
  unfolding kept_by_def by blast

lemma kept_by_clear:
  "kept_by c arg P \<Longrightarrow> m_action arg = store \<Longrightarrow> P r \<Longrightarrow>
     for_each_flag (\<lambda>vs. []) (get_argument_flags arg) r = Return r' \<Longrightarrow> P r'"
  unfolding kept_by_def by blast

lemma kept_by_same_outside:
  assumes "\<And>r r'. P r \<Longrightarrow> same_outside (set (get_argument_flags arg)) r r' \<Longrightarrow> P r'"
  shows "kept_by c arg P"
proof (unfold kept_by_def, intro allI impI)
  fix r r'
  assume P: "P r"
    and ops: "(\<not> stored_action (m_action arg) \<and> (\<exists>v. store_value c arg v r = Return r'))
         \<or> store_default_value c arg r = Return r'
         \<or> (constant_action (m_action arg) \<and> store_const_value arg r = Return r')
         \<or> (m_action arg = append_const \<and> append_const_value c arg r = Return r')
         \<or> (m_action arg = count_action \<and> store_count_value arg r = Return r')
         \<or> (m_action arg = store
             \<and> for_each_flag (\<lambda>vs. []) (get_argument_flags arg) r = Return r')"
  from ops have "same_outside (set (get_argument_flags arg)) r r'"
  proof (elim disjE exE conjE)
    fix v assume "store_value c arg v r = Return r'"
    then show ?thesis by (rule store_value_same_outside)
  next
    assume "store_default_value c arg r = Return r'"
    then show ?thesis by (rule store_default_value_same_outside)
  next
    assume "store_const_value arg r = Return r'"
    then show ?thesis by (rule store_const_value_same_outside)
  next
    assume "append_const_value c arg r = Return r'"
    then show ?thesis by (rule append_const_value_same_outside)
  next
    assume "store_count_value arg r = Return r'"
    then show ?thesis by (rule store_count_value_same_outside)
  next
    assume "for_each_flag (\<lambda>vs. []) (get_argument_flags arg) r = Return r'"
    then show ?thesis by (rule for_each_flag_same_outside)
  qed
  with P show "P r'" by (rule assms)
qed

lemma kept_by_disjoint:
  "set (get_argument_flags arg) \<inter> K = {} \<Longrightarrow> kept_by c arg (all_values Q K)"
  by (rule kept_by_same_outside) (auto intro: all_values_frame)

lemma kept_by_entry:
  "k \<notin> set (get_argument_flags arg) \<Longrightarrow> kept_by c arg (\<lambda>r. map_of r k = x)"
  by (rule kept_by_same_outside) (simp add: same_outside_def)


subsection \<open>The main pass\<close>

lemma consume_values_kept:
  assumes "kept_by c temp P" and "\<not> stored_action (m_action temp)"
  shows "P r \<Longrightarrow> consume_values c temp arg n rest r = Return (rest', r') \<Longrightarrow> P r'"
proof (induction rest arbitrary: n r)
  case Nil
  then show ?case
    using kept_by_store_value[OF assms]
    by (auto simp: expected_error_def handle_error_def bind_eq_Return_iff split: if_splits)
next
  case (Cons nxt rest)
  show ?case
  proof (cases "is_value_token c nxt")
    case True
    from Cons.prems True obtain r1 where
      s: "store_value c temp nxt r = Return r1" and
      k: "(if m_nargs temp = [] \<or> (m_num_args temp \<noteq> 0 \<and> n + 1 = m_num_args temp)
           then Return (rest, r1)
           else consume_values c temp arg (n + 1) rest r1) = Return (rest', r')"
      by (auto simp: bind_eq_Return_iff)
    from kept_by_store_value[OF assms Cons.prems(1) s] have P1: "P r1" .
    show ?thesis
    proof (cases "m_nargs temp = [] \<or> (m_num_args temp \<noteq> 0 \<and> n + 1 = m_num_args temp)")
      case True
      with k P1 show ?thesis by auto
    next
      case False
      with k have "consume_values c temp arg (n + 1) rest r1 = Return (rest', r')" by simp
      from Cons.IH[OF P1 this] show ?thesis .
    qed
  next
    case False
    with Cons.prems show ?thesis
      using kept_by_store_value[OF assms]
      by (auto simp: expected_error_def handle_error_def bind_eq_Return_iff split: if_splits)
  qed
qed


lemma store_values_kept:
  assumes "kept_by c temp P" and "\<not> stored_action (m_action temp)"
  shows "P r \<Longrightarrow> store_values c temp arg splitted rest r = Return (rest', r') \<Longrightarrow> P r'"
proof -
  assume P: "P r" and s: "store_values c temp arg splitted rest r = Return (rest', r')"
  show ?thesis
  proof (cases "length splitted = 2")
    case True
    with s have "store_value c temp (last splitted) r = Return r'"
      by (auto simp: store_values_def handle_error_def bind_eq_Return_iff split: if_splits)
    from kept_by_store_value[OF assms P this] show ?thesis .
  next
    case False
    with s have "consume_values c temp arg 0 rest r = Return (rest', r')"
      by (simp add: store_values_def)
    from consume_values_kept[OF assms P this] show ?thesis .
  qed
qed

lemma store_constant_kept:
  assumes "kept_by c temp P" and "constant_action (m_action temp)"
  shows "P r \<Longrightarrow> store_constant c temp arg splitted rest r = Return (rest', r') \<Longrightarrow> P r'"
proof -
  assume P: "P r" and s: "store_constant c temp arg splitted rest r = Return (rest', r')"
  then have "store_const_value temp r = Return r'"
    by (auto simp: store_constant_def ignored_explicit_def handle_error_def bind_eq_Return_iff
             split: if_splits)
  from kept_by_store_const_value[OF assms P this] show ?thesis .
qed

lemma dispatch_kept:
  assumes "kept_by c temp P"
  shows "P r \<Longrightarrow> dispatch c temp arg splitted rest r = Return (rest', r') \<Longrightarrow> P r'"
proof -
  assume P: "P r" and d: "dispatch c temp arg splitted rest r = Return (rest', r')"
  show ?thesis
  proof (cases "m_action temp")
    case store
    with d obtain r1 where
      a: "for_each_flag (\<lambda>vs. []) (get_argument_flags temp) r = Return r1" and
      b: "store_values c temp arg splitted rest r1 = Return (rest', r')"
      by (auto simp: dispatch_def bind_eq_Return_iff)
    from store have nv: "\<not> stored_action (m_action temp)"
      by (simp add: stored_action_def constant_action_def)
    from kept_by_clear[OF assms store P a] have "P r1" .
    from store_values_kept[OF assms nv this b] show ?thesis .
  next
    case store_const
    then have ca: "constant_action (m_action temp)"
      by (simp add: constant_action_def)
    from store_const d have "store_constant c temp arg splitted rest r = Return (rest', r')"
      by (simp add: dispatch_def)
    from store_constant_kept[OF assms ca P this] show ?thesis .
  next
    case store_true
    then have ca: "constant_action (m_action temp)"
      by (simp add: constant_action_def)
    from store_true d have "store_constant c temp arg splitted rest r = Return (rest', r')"
      by (simp add: dispatch_def)
    from store_constant_kept[OF assms ca P this] show ?thesis .
  next
    case store_false
    then have ca: "constant_action (m_action temp)"
      by (simp add: constant_action_def)
    from store_false d have "store_constant c temp arg splitted rest r = Return (rest', r')"
      by (simp add: dispatch_def)
    from store_constant_kept[OF assms ca P this] show ?thesis .
  next
    case append_action
    then have nv: "\<not> stored_action (m_action temp)"
      by (simp add: stored_action_def constant_action_def)
    from append_action d have "store_values c temp arg splitted rest r = Return (rest', r')"
      by (simp add: dispatch_def)
    from store_values_kept[OF assms nv P this] show ?thesis .
  next
    case extend_action
    then have nv: "\<not> stored_action (m_action temp)"
      by (simp add: stored_action_def constant_action_def)
    from extend_action d have "store_values c temp arg splitted rest r = Return (rest', r')"
      by (simp add: dispatch_def)
    from store_values_kept[OF assms nv P this] show ?thesis .
  next
    case append_const
    with d have "append_const_value c temp r = Return r'"
      by (auto simp: dispatch_def ignored_explicit_def handle_error_def bind_eq_Return_iff
               split: if_splits)
    from kept_by_append_const_value[OF assms append_const P this] show ?thesis .
  next
    case count_action
    with d have "store_count_value temp r = Return r'"
      by (auto simp: dispatch_def ignored_explicit_def handle_error_def bind_eq_Return_iff
               split: if_splits)
    from kept_by_store_count_value[OF assms count_action P this] show ?thesis .
  next
    case help_action
    with d show ?thesis
      by (auto simp: dispatch_def ignored_explicit_def handle_error_def split: if_splits)
  next
    case version_action
    with d show ?thesis
      by (auto simp: dispatch_def ignored_explicit_def handle_error_def split: if_splits)
  qed
qed


lemma main_loop_kept:
  assumes "main_loop c toks st = Return st'" and "P (result st)"
    and "\<forall>temp\<in>set (optional c). kept_by c temp P"
  shows "P (result st')"
proof (rule main_loop_invariant[OF assms(1), of P, OF assms(2)])
  fix tok temp rest r rest' r'
  assume "get_optional_arg_by_flag c (option_name tok) = Some temp" and "P r"
    and "dispatch c temp (option_name tok) (split_equal tok) rest r = Return (rest', r')"
  with assms(3) show "P r'"
    by (meson dispatch_kept get_optional_arg_by_flag_Some)
qed


subsection \<open>Positional matching\<close>

lemma is_positional_arg_stored_kept:
  assumes "kept_by c arg P"
  shows "P r \<Longrightarrow> is_positional_arg_stored c arg r = Return (b, r') \<Longrightarrow> P r'"
proof -
  assume P: "P r" and s: "is_positional_arg_stored c arg r = Return (b, r')"
  from s have "(constant_action (m_action arg) \<and> store_const_value arg r = Return r')
               \<or> (m_action arg = append_const \<and> append_const_value c arg r = Return r')
               \<or> (m_action arg = count_action \<and> store_count_value arg r = Return r')
               \<or> r' = r"
    by (auto simp: is_positional_arg_stored_def constant_action_def bind_eq_Return_iff
             split: if_splits)
  then show ?thesis
  proof (elim disjE conjE)
    assume "constant_action (m_action arg)" and "store_const_value arg r = Return r'"
    from kept_by_store_const_value[OF assms this(1) P this(2)] show ?thesis .
  next
    assume "m_action arg = append_const" and "append_const_value c arg r = Return r'"
    from kept_by_append_const_value[OF assms this(1) P this(2)] show ?thesis .
  next
    assume "m_action arg = count_action" and "store_count_value arg r = Return r'"
    from kept_by_store_count_value[OF assms this(1) P this(2)] show ?thesis .
  next
    assume "r' = r"
    with P show ?thesis by simp
  qed
qed

lemma is_positional_arg_stored_False:
  "is_positional_arg_stored c arg r = Return (False, r') \<Longrightarrow> \<not> stored_action (m_action arg)"
  by (auto simp: is_positional_arg_stored_def stored_action_def constant_action_def
                 bind_eq_Return_iff split: if_splits)

lemma store_next_kept:
  assumes "kept_by c arg P" and "\<not> stored_action (m_action arg)"
  shows "P r \<Longrightarrow> store_next c arg rest r = Return (rest', r') \<Longrightarrow> P r'"
proof -
  assume P: "P r" and s: "store_next c arg rest r = Return (rest', r')"
  from s obtain v where "store_value c arg v r = Return r'"
    by (auto simp: store_next_def bind_eq_Return_iff split: list.splits)
  from kept_by_store_value[OF assms P this] show ?thesis .
qed

lemma store_n_kept:
  assumes "kept_by c arg P" and "\<not> stored_action (m_action arg)"
  shows "P r \<Longrightarrow> store_n c arg k rest r = Return (rest', r') \<Longrightarrow> P r'"
proof (induction k arbitrary: rest r)
  case 0
  then show ?case by simp
next
  case (Suc k)
  from Suc.prems(2) obtain rest1 r1 where
    a: "store_next c arg rest r = Return (rest1, r1)" and
    b: "store_n c arg k rest1 r1 = Return (rest', r')"
    by (auto simp: bind_eq_Return_iff)
  from store_next_kept[OF assms Suc.prems(1) a] have "P r1" .
  from Suc.IH[OF this b] show ?case .
qed

lemma keep_over_Return:
  "keep_over over m = Return s \<Longrightarrow> \<exists>rest r. m = Return (rest, r) \<and> s = (rest, over, r)"
  by (auto simp: keep_over_def bind_eq_Return_iff)

text \<open>
  What a loop body does to the result map: the constant-like store, then nothing, a default,
  or some values of the group.
\<close>

definition slot_effect :: "ctx \<Rightarrow> Argument \<Rightarrow> result_map \<Rightarrow> result_map \<Rightarrow> bool" where
  "slot_effect c arg r r' =
     (\<exists>b r1. is_positional_arg_stored c arg r = Return (b, r1)
        \<and> (r' = r1 \<or> store_default_value c arg r1 = Return r'
            \<or> (\<not> b \<and> (\<exists>k rest rest'. store_n c arg k rest r1 = Return (rest', r')))))"

lemma store_next_as_store_n:
  "store_next c arg rest r = Return (rest', r') \<Longrightarrow> store_n c arg (Suc 0) rest r = Return (rest', r')"
  by (simp add: bind_eq_Return_iff)

lemma store_n_add:
  "store_n c arg j rest r = Return (rest1, r1) \<Longrightarrow> store_n c arg k rest1 r1 = Return (rest', r') \<Longrightarrow>
     store_n c arg (j + k) rest r = Return (rest', r')"
proof (induction j arbitrary: rest r)
  case 0
  then show ?case by simp
next
  case (Suc j)
  from Suc.prems(1) obtain rest0 r0 where
    a: "store_next c arg rest r = Return (rest0, r0)" and
    b: "store_n c arg j rest0 r0 = Return (rest1, r1)"
    by (auto simp: bind_eq_Return_iff)
  from Suc.IH[OF b Suc.prems(2)] a show ?case by (simp add: bind_eq_Return_iff)
qed

lemma slot_effect_stored:
  "is_positional_arg_stored c arg r = Return (b, r1) \<Longrightarrow> slot_effect c arg r r1"
  unfolding slot_effect_def by blast

lemma slot_effect_default:
  "is_positional_arg_stored c arg r = Return (b, r1) \<Longrightarrow>
     store_default_value c arg r1 = Return r' \<Longrightarrow> slot_effect c arg r r'"
  unfolding slot_effect_def by blast

lemma slot_effect_store_n:
  "is_positional_arg_stored c arg r = Return (False, r1) \<Longrightarrow>
     store_n c arg k rest r1 = Return (rest', r') \<Longrightarrow> slot_effect c arg r r'"
  unfolding slot_effect_def by blast

lemma slot_effect_store_next:
  "is_positional_arg_stored c arg r = Return (False, r1) \<Longrightarrow>
     store_next c arg rest r1 = Return (rest', r') \<Longrightarrow> slot_effect c arg r r'"
  by (rule slot_effect_store_n[OF _ store_next_as_store_n])

lemma slot_effect_store_more:
  "is_positional_arg_stored c arg r = Return (False, r1) \<Longrightarrow>
     store_next c arg rest r1 = Return (rest1, r2) \<Longrightarrow>
     store_n c arg k rest1 r2 = Return (rest', r') \<Longrightarrow> slot_effect c arg r r'"
  by (rule slot_effect_store_n[OF _ store_n_add[OF store_next_as_store_n]])

lemmas slot_effect_intros =
  slot_effect_stored slot_effect_default slot_effect_store_n slot_effect_store_next
  slot_effect_store_more

lemma slot_exact_effect:
  "slot_exact c arg (rest, over, r) = Return (rest', over', r') \<Longrightarrow> slot_effect c arg r r'"
  unfolding slot_exact_def
  by (auto simp: bind_eq_Return_iff split: if_splits dest!: keep_over_Return
           intro: slot_effect_intros)

lemma slot_more_effect:
  "slot_more c arg (rest, over, r) = Return (rest', over', r') \<Longrightarrow> slot_effect c arg r r'"
  unfolding slot_more_def
  by (auto simp: bind_eq_Return_iff split: if_splits dest!: keep_over_Return
           intro: slot_effect_intros)

lemma slot_one_effect:
  "slot_one c k arg (rest, over, r) = Return (rest', over', r') \<Longrightarrow> slot_effect c arg r r'"
  unfolding slot_one_def
  by (auto simp: bind_eq_Return_iff split: if_splits dest!: keep_over_Return
           intro: slot_effect_intros)

lemma slot_rest_effect:
  "slot_rest c arg (rest, over, r) = Return (rest', over', r') \<Longrightarrow> slot_effect c arg r r'"
  unfolding slot_rest_def
  by (auto simp: bind_eq_Return_iff split: if_splits dest!: keep_over_Return
           intro: slot_effect_intros)

lemma slot_effect_kept:
  assumes "kept_by c arg P" and "P r" and "slot_effect c arg r r'"
  shows "P r'"
proof -
  from assms(3) obtain b r1 where
    a: "is_positional_arg_stored c arg r = Return (b, r1)" and
    k: "r' = r1 \<or> store_default_value c arg r1 = Return r'
        \<or> (\<not> b \<and> (\<exists>k rest rest'. store_n c arg k rest r1 = Return (rest', r')))"
    unfolding slot_effect_def by blast
  from is_positional_arg_stored_kept[OF assms(1,2) a] have P1: "P r1" .
  from k show ?thesis
  proof (elim disjE exE conjE)
    assume "r' = r1"
    with P1 show ?thesis by simp
  next
    assume "store_default_value c arg r1 = Return r'"
    from kept_by_store_default_value[OF assms(1) P1 this] show ?thesis .
  next
    fix k rest rest'
    assume nb: "\<not> b" and n: "store_n c arg k rest r1 = Return (rest', r')"
    from a nb have "is_positional_arg_stored c arg r = Return (False, r1)" by simp
    from is_positional_arg_stored_False[OF this] have "\<not> stored_action (m_action arg)" .
    from store_n_kept[OF assms(1) this P1 n] show ?thesis .
  qed
qed

lemma for_slots_kept:
  assumes body: "\<And>arg rest over r rest' over' r'. arg \<in> set slots \<Longrightarrow> P r \<Longrightarrow>
                   body arg (rest, over, r) = Return (rest', over', r') \<Longrightarrow> P r'"
  shows "P r \<Longrightarrow> for_slots body slots (rest, over, r) = Return (rest', over', r') \<Longrightarrow> P r'"
  using body
proof (induction slots arbitrary: rest over r)
  case Nil
  then show ?case by simp
next
  case (Cons arg slots)
  from Cons.prems(2) obtain rest1 over1 r1 where
    a: "body arg (rest, over, r) = Return (rest1, over1, r1)" and
    b: "for_slots body slots (rest1, over1, r1) = Return (rest', over', r')"
    by (auto simp: bind_eq_Return_iff)
  have "arg \<in> set (arg # slots)" by simp
  from Cons.prems(3)[OF this Cons.prems(1) a] have P1: "P r1" .
  show ?case
  proof (rule Cons.IH[OF P1 b])
    fix x rest over r rest' over' r'
    assume "x \<in> set slots" and p: "P r" and e: "body x (rest, over, r) = Return (rest', over', r')"
    then have "x \<in> set (arg # slots)" by simp
    from Cons.prems(3)[OF this p e] show "P r'" .
  qed
qed

lemma match_plan_cases:
  "match_plan c sz w = (body, over, leftover) \<Longrightarrow>
     body = slot_exact c \<or> body = slot_more c \<or> (\<exists>k. body = slot_one c k) \<or> body = slot_rest c"
  by (cases w) (auto simp: match_plan_def split: if_splits)

lemma match_args_partial_kept:
  assumes "\<forall>arg\<in>set (positional c). kept_by c arg P"
  shows "P (m_result st) \<Longrightarrow> match_args_partial c values st = Return st' \<Longrightarrow> P (m_result st')"
proof -
  assume P: "P (m_result st)" and m: "match_args_partial c values st = Return st'"
  let ?w = "scan_window (length values) (drop (pos st) (positional c)) (pos st, 0, 0, False)"
  let ?slots = "take (fst ?w - pos st) (drop (pos st) (positional c))"
  show ?thesis
  proof (cases "pos st \<ge> length (positional c) \<or> fst ?w = pos st")
    case True
    with m P show ?thesis by (auto simp: match_args_partial_def Let_def split: if_splits)
  next
    case False
    obtain body over leftover where plan: "match_plan c (length values) ?w = (body, over, leftover)"
      by (cases "match_plan c (length values) ?w") auto
    from m False plan obtain rest over' r' where
      run: "for_slots body ?slots (values, over, m_result st) = Return (rest, over', r')"
      and st': "m_result st' = r'"
      by (auto simp: match_args_partial_def Let_def bind_eq_Return_iff)
    have slots: "set ?slots \<subseteq> set (positional c)"
      by (meson set_take_subset set_drop_subset subset_trans)
    have step: "\<And>arg rest over r rest' over' r'. arg \<in> set ?slots \<Longrightarrow> P r \<Longrightarrow>
                  body arg (rest, over, r) = Return (rest', over', r') \<Longrightarrow> P r'"
    proof -
      fix arg rest over r rest' over' r'
      assume a: "arg \<in> set ?slots" and Pr: "P r"
        and b: "body arg (rest, over, r) = Return (rest', over', r')"
      from a slots assms have k: "kept_by c arg P" by auto
      from match_plan_cases[OF plan] b have "slot_effect c arg r r'"
        by (auto dest: slot_exact_effect slot_more_effect slot_one_effect slot_rest_effect)
      from slot_effect_kept[OF k Pr this] show "P r'" .
    qed
    from for_slots_kept[of ?slots P body, OF step P run] have "P r'" .
    with st' show ?thesis by simp
  qed
qed

lemma match_all_kept:
  assumes "\<forall>arg\<in>set (positional c). kept_by c arg P"
  shows "P (m_result st) \<Longrightarrow> match_all c groups st = Return st' \<Longrightarrow> P (m_result st')"
proof (induction groups arbitrary: st)
  case Nil
  then show ?case by simp
next
  case (Cons vals groups)
  from Cons.prems(2) obtain st1 where
    a: "match_args_partial c vals st = Return st1" and
    b: "match_all c groups st1 = Return st'"
    by (auto simp: bind_eq_Return_iff)
  from match_args_partial_kept[OF assms Cons.prems(1) a] have "P (m_result st1)" .
  from Cons.IH[OF this b] show ?case .
qed


subsection \<open>Finalization\<close>

lemma missing_positionals_kept:
  assumes "\<forall>arg\<in>set slots. kept_by c arg P"
  shows "P r \<Longrightarrow> missing_positionals c slots args r = Return (args', r') \<Longrightarrow> P r'"
  using assms
proof (induction slots arbitrary: args r)
  case Nil
  then show ?case by simp
next
  case (Cons arg slots)
  from Cons.prems(3) have k: "kept_by c arg P" and ks: "\<forall>arg\<in>set slots. kept_by c arg P"
    by simp_all
  show ?case
  proof (cases "args = []")
    case False
    with Cons.prems(2) have
      "missing_positionals c slots (args @ '', '' @ front_flag (m_flags arg)) r = Return (args', r')"
      by simp
    from Cons.IH[OF Cons.prems(1) this ks] show ?thesis .
  next
    case True
    with Cons.prems(2) obtain b r1 where
      a: "is_positional_arg_stored c arg r = Return (b, r1)" and
      rest: "(if b then missing_positionals c slots args r1
              else if m_nargs arg = ''?'' \<or> m_nargs arg = ''*''
              then bind (store_default_value c arg r1) (missing_positionals c slots args)
              else missing_positionals c slots (args @ front_flag (m_flags arg)) r1)
             = Return (args', r')"
      by (auto simp: bind_eq_Return_iff)
    from is_positional_arg_stored_kept[OF k Cons.prems(1) a] have P1: "P r1" .
    show ?thesis
    proof (cases "\<not> b \<and> (m_nargs arg = ''?'' \<or> m_nargs arg = ''*'')")
      case True
      with rest obtain r2 where
        d: "store_default_value c arg r1 = Return r2" and
        e: "missing_positionals c slots args r2 = Return (args', r')"
        by (auto simp: bind_eq_Return_iff)
      from kept_by_store_default_value[OF k P1 d] have "P r2" .
      from Cons.IH[OF this e ks] show ?thesis .
    next
      case False
      with rest have "\<exists>args1. missing_positionals c slots args1 r1 = Return (args', r')"
        by (auto split: if_splits)
      then obtain args1 where "missing_positionals c slots args1 r1 = Return (args', r')" ..
      from Cons.IH[OF P1 this ks] show ?thesis .
    qed
  qed
qed

lemma finalize_Return:
  assumes "finalize c st = Return ns"
  shows "m_unrecognized_args st = []
     \<and> (\<exists>r. ns = \<lparr> ns_arguments = map (materialize_default c) r,
                   ns_prefix_chars = c_prefix_chars c \<rparr>
            \<and> (r = m_result st
                \<or> (\<exists>args. missing_positionals c (drop (pos st) (positional c)) [] (m_result st)
                             = Return (args, r))))"
  using assms
  by (auto simp: finalize_def bind_eq_Return_iff handle_error_def split: if_splits)

lemma finalize_kept:
  assumes "finalize c st = Return ns" and "\<forall>arg\<in>set (positional c). kept_by c arg P"
    and "P (m_result st)"
  shows "\<exists>r. P r \<and> ns_arguments ns = map (materialize_default c) r"
proof -
  from finalize_Return[OF assms(1)] obtain r where
    ns: "ns = \<lparr> ns_arguments = map (materialize_default c) r,
                ns_prefix_chars = c_prefix_chars c \<rparr>"
    and r: "r = m_result st
            \<or> (\<exists>args. missing_positionals c (drop (pos st) (positional c)) [] (m_result st)
                         = Return (args, r))"
    by blast
  have slots: "\<forall>arg\<in>set (drop (pos st) (positional c)). kept_by c arg P"
    using assms(2) by (meson in_set_dropD)
  from r have "P r"
  proof
    assume "r = m_result st"
    with assms(3) show ?thesis by simp
  next
    assume "\<exists>args. missing_positionals c (drop (pos st) (positional c)) [] (m_result st)
                     = Return (args, r)"
    then obtain args where
      "missing_positionals c (drop (pos st) (positional c)) [] (m_result st) = Return (args, r)" ..
    from missing_positionals_kept[OF slots assms(3) this] show ?thesis .
  qed
  with ns show ?thesis by auto
qed

lemma materialize_default_key [simp]: "fst (materialize_default c e) = fst e"
  by (auto simp: materialize_default_def split: option.splits)

lemma map_of_materialize_default:
  "map_of (map (materialize_default c) r) k
     = map_option (\<lambda>av. snd (materialize_default c (k, av))) (map_of r k)"
proof (induction r)
  case Nil
  show ?case by simp
next
  case (Cons e r)
  obtain k0 av0 where e: "e = (k0, av0)" by (cases e) auto
  have f: "fst (materialize_default c (k0, av0)) = k0" by simp
  obtain av1 where m: "materialize_default c (k0, av0) = (k0, av1)"
    using f by (cases "materialize_default c (k0, av0)") auto
  show ?case using Cons by (simp add: e m)
qed

subsection \<open>The whole parse\<close>

text \<open>The tokens that the main loop walks: after file expansion and abbreviations.\<close>

definition resolved_tokens :: "ArgumentParser \<Rightarrow> files \<Rightarrow> string list \<Rightarrow> string list outcome" where
  "resolved_tokens p fs parsed_arguments =
     bind (if m_fromfile_prefix_chars (cfg p) \<noteq> []
           then expand_files (m_prog (cfg p)) (m_fromfile_prefix_chars (cfg p)) fs parsed_arguments
           else Return parsed_arguments)
       (\<lambda>ts. bind (create_result (positional (make_ctx p)) [])
          (\<lambda>r0. bind (create_result (optional (make_ctx p)) r0)
             (\<lambda>r1. check_abbreviations (make_ctx p) r1 ts)))"

text \<open>The result skeleton of a parser: positionals first, then optionals.\<close>

definition all_arguments :: "ctx \<Rightarrow> Argument list" where
  "all_arguments c = positional c @ optional c"

lemma parse_known_args_Return:
  assumes "parse_known_args p fs toks = Return ns"
  shows "\<exists>ts st1 st2.
      resolved_tokens p fs toks = Return ts
      \<and> distinct (concat (map get_argument_flags (all_arguments (make_ctx p))))
      \<and> main_loop (make_ctx p) ts
           \<lparr> result = skeleton (all_arguments (make_ctx p)), positional_values = [],
             unrecognized_args = [] \<rparr> = Return st1
      \<and> match_all (make_ctx p) (positional_values st1)
           \<lparr> pos = 0, m_result = result st1, m_unrecognized_args = unrecognized_args st1 \<rparr>
          = Return st2
      \<and> finalize (make_ctx p) st2 = Return ns"
proof -
  let ?c = "make_ctx p"
  from assms obtain ts0 st1 st2 where
    ex: "(if m_fromfile_prefix_chars (cfg p) \<noteq> []
          then expand_files (m_prog (cfg p)) (m_fromfile_prefix_chars (cfg p)) fs toks
          else Return toks) = Return ts0"
    and mp: "main_pass ?c ts0 = Return st1"
    and ma: "match_pass ?c st1 = Return st2"
    and fin: "finalize ?c st2 = Return ns"
    by (auto simp: parse_known_args_def bind_eq_Return_iff)
  from mp obtain r0 r1 ts where
    c0: "create_result (positional ?c) [] = Return r0"
    and c1: "create_result (optional ?c) r0 = Return r1"
    and ab: "check_abbreviations ?c r1 ts0 = Return ts"
    and ml: "main_loop ?c ts \<lparr> result = r1, positional_values = [], unrecognized_args = [] \<rparr>
               = Return st1"
    by (auto simp: main_pass_def bind_eq_Return_iff)
  note e0 = create_result_eq[OF c0]
  note e1 = create_result_eq[OF c1]
  have r0: "r0 = skeleton (positional ?c)" using e0 by simp
  have keys0: "fst ` set r0 = set (concat (map get_argument_flags (positional ?c)))"
    unfolding r0 using skeleton_keys[of "positional ?c"] by (metis set_map)
  have r1: "r1 = skeleton (all_arguments ?c)"
    using e1 r0 by (simp add: all_arguments_def skeleton_def)
  have dist: "distinct (concat (map get_argument_flags (all_arguments ?c)))"
    using e0 e1 keys0 by (auto simp: all_arguments_def)
  have res: "resolved_tokens p fs toks = Return ts"
    using ex c0 c1 ab by (simp add: resolved_tokens_def)
  from res dist ml ma fin show ?thesis
    unfolding r1 match_pass_def by blast
qed

text \<open>A property that every store operation keeps holds for the map the defaults are put in.\<close>

lemma parse_known_args_kept:
  assumes "parse_known_args p fs toks = Return ns"
    and "\<forall>arg\<in>set (all_arguments (make_ctx p)). kept_by (make_ctx p) arg P"
    and "P (skeleton (all_arguments (make_ctx p)))"
  shows "\<exists>r. P r \<and> ns_arguments ns = map (materialize_default (make_ctx p)) r"
proof -
  let ?c = "make_ctx p"
  from parse_known_args_Return[OF assms(1)] obtain ts st1 st2 where
    ml: "main_loop ?c ts \<lparr> result = skeleton (all_arguments ?c), positional_values = [],
                           unrecognized_args = [] \<rparr> = Return st1"
    and ma: "match_all ?c (positional_values st1)
               \<lparr> pos = 0, m_result = result st1, m_unrecognized_args = unrecognized_args st1 \<rparr>
             = Return st2"
    and fin: "finalize ?c st2 = Return ns"
    by blast
  have opt: "\<forall>temp\<in>set (optional ?c). kept_by ?c temp P"
    and pos: "\<forall>arg\<in>set (positional ?c). kept_by ?c arg P"
    using assms(2) by (simp_all add: all_arguments_def)
  from main_loop_kept[OF ml _ opt] assms(3) have "P (result st1)" by simp
  with match_all_kept[OF pos _ ma] have "P (m_result st2)" by simp
  from finalize_kept[OF fin pos this] show ?thesis .
qed


subsection \<open>The entry of one key\<close>

text \<open>\<open>holds_at k act Q r\<close>: the map has the key \<open>k\<close>, with the tag \<open>act\<close> and values \<open>Q\<close>.\<close>

definition holds_at :: "string \<Rightarrow> Action \<Rightarrow> (string list \<Rightarrow> bool) \<Rightarrow> result_map \<Rightarrow> bool" where
  "holds_at k act Q r = (\<exists>vs. map_of r k = Some (act, vs) \<and> Q vs)"

lemma holds_at_skeleton:
  "distinct (concat (map get_argument_flags args)) \<Longrightarrow> arg \<in> set args \<Longrightarrow>
     k \<in> set (get_argument_flags arg) \<Longrightarrow> Q [] \<Longrightarrow> holds_at k (m_action arg) Q (skeleton args)"
  by (simp add: holds_at_def map_of_skeleton)

lemma kept_by_other:
  assumes "k \<notin> set (get_argument_flags arg)"
  shows "kept_by c arg (holds_at k act Q)"
proof (rule kept_by_same_outside)
  fix r r'
  assume h: "holds_at k act Q r" and s: "same_outside (set (get_argument_flags arg)) r r'"
  from same_outside_at[OF s assms] have "map_of r' k = map_of r k" .
  with h show "holds_at k act Q r'" by (simp add: holds_at_def)
qed

lemma store_const_value_at:
  "store_const_value a r = Return r' \<Longrightarrow> distinct (get_argument_flags a) \<Longrightarrow>
     k \<in> set (get_argument_flags a) \<Longrightarrow>
     \<exists>act vs. map_of r k = Some (act, vs)
        \<and> map_of r' k = Some (act, if vs = [] then [m_const a] else vs)"
  unfolding store_const_value_def by (rule for_each_flag_at)

lemma kept_by_constant:
  assumes "constant_action (m_action a)" and "distinct (get_argument_flags a)"
    and "k \<in> set (get_argument_flags a)"
    and "\<And>vs. Q vs \<Longrightarrow> Q (if vs = [] then [m_const a] else vs)"
  shows "kept_by c a (holds_at k act Q)"
proof (unfold kept_by_def, intro allI impI)
  fix r r'
  assume P: "holds_at k act Q r"
    and ops: "(\<not> stored_action (m_action a) \<and> (\<exists>v. store_value c a v r = Return r'))
         \<or> store_default_value c a r = Return r'
         \<or> (constant_action (m_action a) \<and> store_const_value a r = Return r')
         \<or> (m_action a = append_const \<and> append_const_value c a r = Return r')
         \<or> (m_action a = count_action \<and> store_count_value a r = Return r')
         \<or> (m_action a = store
             \<and> for_each_flag (\<lambda>vs. []) (get_argument_flags a) r = Return r')"
  from assms(1) have no: "stored_action (m_action a)" "m_action a \<noteq> append_const"
    "m_action a \<noteq> count_action" "m_action a \<noteq> store"
    by (auto simp: stored_action_def constant_action_def)
  from ops no consider
    (sd) "store_default_value c a r = Return r'"
    | (sc) "store_const_value a r = Return r'"
    by blast
  then show "holds_at k act Q r'"
  proof cases
    case sd
    with no(4) P show ?thesis by (simp add: store_default_value_def)
  next
    case sc
    from store_const_value_at[OF sc assms(2,3)] obtain act' vs where
      a: "map_of r k = Some (act', vs)"
      and b: "map_of r' k = Some (act', if vs = [] then [m_const a] else vs)"
      by blast
    from P a have "act' = act" and "Q vs" by (simp_all add: holds_at_def)
    with b assms(4)[of vs] show ?thesis by (simp add: holds_at_def)
  qed
qed

lemma keys_of_others:
  assumes "distinct (concat (map get_argument_flags args))" and "a \<in> set args"
    and "k \<in> set (get_argument_flags a)" and "arg \<in> set args" and "arg \<noteq> a"
  shows "k \<notin> set (get_argument_flags arg)"
  using distinct_concat_disjoint[OF assms(1,4,2,5)] assms(3) by blast

lemma optional_in_all_arguments: "a \<in> set (optional c) \<Longrightarrow> a \<in> set (all_arguments c)"
  by (simp add: all_arguments_def)

lemma keys_of_positionals:
  assumes "distinct (concat (map get_argument_flags (all_arguments c)))"
    and "a \<in> set (optional c)" and "k \<in> set (get_argument_flags a)"
    and "arg \<in> set (positional c)"
  shows "k \<notin> set (get_argument_flags arg)"
proof
  assume "k \<in> set (get_argument_flags arg)"
  with assms(4) have "k \<in> set (concat (map get_argument_flags (positional c)))" by auto
  moreover from assms(2,3) have "k \<in> set (concat (map get_argument_flags (optional c)))"
    by auto
  ultimately show False using assms(1) by (auto simp: all_arguments_def)
qed

text \<open>Without a token that names the argument, its key is as the main loop found it.\<close>

lemma untouched_without_flag:
  assumes ml: "main_loop c ts st = Return st'"
    and none: "\<forall>t\<in>set ts. option_name t \<notin> set (m_flags a)"
    and a: "a \<in> set (optional c)" "k \<in> set (get_argument_flags a)"
    and dist: "distinct (concat (map get_argument_flags (all_arguments c)))"
    and init: "holds_at k act Q (result st)"
  shows "holds_at k act Q (result st')"
proof (rule main_loop_invariant[OF ml, of "holds_at k act Q", OF init])
  fix tok temp rest r rest' r'
  assume tok: "tok \<in> set ts"
    and look: "get_optional_arg_by_flag c (option_name tok) = Some temp"
    and h: "holds_at k act Q r"
    and d: "dispatch c temp (option_name tok) (split_equal tok) rest r = Return (rest', r')"
  from get_optional_arg_by_flag_Some[OF look] have
    temp: "temp \<in> set (optional c)" and fl: "option_name tok \<in> set (m_flags temp)"
    by simp_all
  from none tok fl have ne: "temp \<noteq> a" by blast
  from temp have "temp \<in> set (all_arguments c)" by (rule optional_in_all_arguments)
  from keys_of_others[OF dist optional_in_all_arguments[OF a(1)] a(2) this ne]
  have "kept_by c temp (holds_at k act Q)" by (rule kept_by_other)
  from dispatch_kept[OF this h d] show "holds_at k act Q r'" .
qed

lemma kept_by_key:
  "kept_by c arg (holds_at k act (\<lambda>vs. True))"
proof (rule kept_by_same_outside)
  fix r r'
  assume h: "holds_at k act (\<lambda>vs. True) r"
    and s: "same_outside (set (get_argument_flags arg)) r r'"
  from h obtain vs where "map_of r k = Some (act, vs)" unfolding holds_at_def by blast
  from same_outside_tag[OF s this] show "holds_at k act (\<lambda>vs. True) r'"
    by (simp add: holds_at_def)
qed

text \<open>What the last two passes leave under a key of an optional.\<close>

lemma optional_entry_after_main_loop:
  assumes "match_all c groups st = Return st2" and "finalize c st2 = Return ns"
    and "distinct (concat (map get_argument_flags (all_arguments c)))"
    and "a \<in> set (optional c)" and "k \<in> set (get_argument_flags a)"
    and "map_of (m_result st) k = Some (act, vs)"
  shows "map_of (ns_arguments ns) k = Some (snd (materialize_default c (k, (act, vs))))"
proof -
  have pos: "\<forall>arg\<in>set (positional c). kept_by c arg (holds_at k act (\<lambda>ws. ws = vs))"
  proof
    fix arg assume "arg \<in> set (positional c)"
    from keys_of_positionals[OF assms(3,4,5) this]
    show "kept_by c arg (holds_at k act (\<lambda>ws. ws = vs))" by (rule kept_by_other)
  qed
  from assms(6) have "holds_at k act (\<lambda>ws. ws = vs) (m_result st)"
    by (simp add: holds_at_def)
  from match_all_kept[OF pos this assms(1)]
  have "holds_at k act (\<lambda>ws. ws = vs) (m_result st2)" .
  from finalize_kept[OF assms(2) pos this] obtain r where
    h: "holds_at k act (\<lambda>ws. ws = vs) r"
    and ns: "ns_arguments ns = map (materialize_default c) r"
    by blast
  from h have "map_of r k = Some (act, vs)" by (simp add: holds_at_def)
  with ns show ?thesis by (simp add: map_of_materialize_default)
qed

section \<open>What one specification of an optional stores\<close>

lemma store_value_entry:
  assumes "store_value c a v r = Return r'" and "distinct (get_argument_flags a)"
    and "k \<in> set (get_argument_flags a)" and "map_of r k = Some (act, vs)"
  shows "map_of r' k = Some (act, vs @ [v])"
proof -
  from store_value_at[OF assms(1,2,3)] obtain act' vs' where
    "map_of r k = Some (act', vs')" and "map_of r' k = Some (act', vs' @ [v])"
    by blast
  with assms(4) show ?thesis by simp
qed

lemma clear_entry:
  assumes "for_each_flag (\<lambda>vs. []) (get_argument_flags a) r = Return r'"
    and "distinct (get_argument_flags a)" and "k \<in> set (get_argument_flags a)"
    and "map_of r k = Some (act, vs)"
  shows "map_of r' k = Some (act, [])"
proof -
  from for_each_flag_at[OF assms(1,2,3)] obtain act' vs' where
    "map_of r k = Some (act', vs')" and "map_of r' k = Some (act', [])"
    by blast
  with assms(4) show ?thesis by simp
qed

text \<open>Counting stored values in a \<^verbatim>\<open>uint32_t\<close> below \<open>num_args\<close> does not wrap.\<close>

lemma count_reaches:
  fixes n :: "32 word"
  shows "n < N \<Longrightarrow> n + 1 = N \<Longrightarrow> unat N - unat n = 1"
  by unat_arith

lemma count_below:
  fixes n :: "32 word"
  shows "n < N \<Longrightarrow> n + 1 \<noteq> N \<Longrightarrow> n + 1 < N \<and> unat N - unat n = Suc (unat N - unat (n + 1))"
  by unat_arith

lemma count_positive:
  fixes N :: "32 word"
  shows "N \<noteq> 0 \<Longrightarrow> 0 < N \<and> unat N - unat (0 :: 32 word) = unat N"
  by unat_arith

text \<open>The default arity: exactly the next token, which has to be a value.\<close>

lemma consume_values_one:
  assumes "m_nargs a = []" and "consume_values c a arg 0 toks r = Return (rest', r')"
  shows "\<exists>v. toks = v # rest' \<and> is_value_token c v \<and> store_value c a v r = Return r'"
proof (cases toks)
  case Nil
  with assms show ?thesis by (simp add: expected_error_def handle_error_def)
next
  case (Cons nxt rest)
  with assms show ?thesis
    by (auto simp: expected_error_def handle_error_def bind_eq_Return_iff split: if_splits)
qed

text \<open>\<^verbatim>\<open>nargs("*")\<close> and \<^verbatim>\<open>nargs("+")\<close>: the whole run of value tokens.\<close>

lemma consume_values_many:
  assumes "m_num_args a = 0" and "m_nargs a \<noteq> []" and "m_nargs a \<noteq> ''?''"
    and "distinct (get_argument_flags a)" and "k \<in> set (get_argument_flags a)"
  shows "consume_values c a arg n toks r = Return (rest', r') \<Longrightarrow> map_of r k = Some (act, vs) \<Longrightarrow>
     map_of r' k = Some (act, vs @ takeWhile (is_value_token c) toks)"
proof (induction toks arbitrary: n r vs)
  case Nil
  then have "r' = r"
    using assms(1,2,3)
    by (auto simp: expected_error_def handle_error_def split: if_splits)
  with Nil.prems(2) show ?case by simp
next
  case (Cons nxt rest)
  show ?case
  proof (cases "is_value_token c nxt")
    case True
    with Cons.prems(1) assms(1,2) obtain r1 where
      s: "store_value c a nxt r = Return r1"
      and k: "consume_values c a arg (n + 1) rest r1 = Return (rest', r')"
      by (auto simp: bind_eq_Return_iff)
    from store_value_entry[OF s assms(4,5) Cons.prems(2)]
    have "map_of r1 k = Some (act, vs @ [nxt])" .
    from Cons.IH[OF k this] True show ?thesis by simp
  next
    case False
    with Cons.prems(1) assms(1,2,3) have "r' = r"
      by (auto simp: expected_error_def handle_error_def split: if_splits)
    with Cons.prems(2) False show ?thesis by simp
  qed
qed

lemma consume_values_plus:
  assumes "m_nargs a = ''+''" and "consume_values c a arg 0 toks r = Return (rest', r')"
  shows "takeWhile (is_value_token c) toks \<noteq> []"
proof (cases toks)
  case Nil
  with assms show ?thesis by (simp add: expected_error_def handle_error_def)
next
  case (Cons nxt rest)
  with assms show ?thesis
    by (cases "is_value_token c nxt") (auto simp: expected_error_def handle_error_def)
qed

text \<open>\<^verbatim>\<open>nargs(N)\<close>: the next \<open>N\<close> tokens, which have to be values.\<close>

lemma consume_values_exact:
  assumes "m_nargs a \<noteq> []" and "m_nargs a \<noteq> ''?''" and "m_nargs a \<noteq> ''*''"
    and "distinct (get_argument_flags a)" and "k \<in> set (get_argument_flags a)"
  shows "consume_values c a arg n toks r = Return (rest', r') \<Longrightarrow> n < m_num_args a \<Longrightarrow>
     map_of r k = Some (act, vs) \<Longrightarrow>
     map_of r' k = Some (act, vs @ take (unat (m_num_args a) - unat n)
                                     (takeWhile (is_value_token c) toks))
     \<and> unat (m_num_args a) - unat n \<le> length (takeWhile (is_value_token c) toks)"
proof (induction toks arbitrary: n r vs)
  case Nil
  from Nil.prems(1,2) assms(1,2,3) have False
    by (auto simp: expected_error_def handle_error_def split: if_splits)
  then show ?case ..
next
  case (Cons nxt rest)
  from Cons.prems(2) have nz: "m_num_args a \<noteq> 0" by auto
  show ?case
  proof (cases "is_value_token c nxt")
    case False
    with Cons.prems(1,2) assms(1,2,3) have False
      by (auto simp: expected_error_def handle_error_def split: if_splits)
    then show ?thesis ..
  next
    case True
    with Cons.prems(1) assms(1) nz obtain r1 where
      s: "store_value c a nxt r = Return r1"
      and k: "(if n + 1 = m_num_args a then Return (rest, r1)
               else consume_values c a arg (n + 1) rest r1) = Return (rest', r')"
      by (auto simp: bind_eq_Return_iff)
    from store_value_entry[OF s assms(4,5) Cons.prems(3)]
    have e1: "map_of r1 k = Some (act, vs @ [nxt])" .
    show ?thesis
    proof (cases "n + 1 = m_num_args a")
      case eq: True
      from count_reaches[OF Cons.prems(2) eq] have "unat (m_num_args a) - unat n = 1" .
      with k eq e1 True show ?thesis by simp
    next
      case ne: False
      from count_below[OF Cons.prems(2) ne] have
        lt: "n + 1 < m_num_args a"
        and su: "unat (m_num_args a) - unat n = Suc (unat (m_num_args a) - unat (n + 1))"
        by simp_all
      from k ne have "consume_values c a arg (n + 1) rest r1 = Return (rest', r')" by simp
      from Cons.IH[OF this lt e1] su True show ?thesis by simp
    qed
  qed
qed

text \<open>\<^verbatim>\<open>nargs("?")\<close> before at most one value token: that token, or else the const.\<close>

lemma consume_values_optional:
  assumes "m_nargs a = ''?''" and "m_num_args a = 0"
    and "length (takeWhile (is_value_token c) toks) \<le> 1"
    and "consume_values c a arg 0 toks r = Return (rest', r')"
  shows "store_value c a (case takeWhile (is_value_token c) toks of
                            [] \<Rightarrow> m_const a | v # vs \<Rightarrow> v) r = Return r'"
proof (cases toks)
  case Nil
  with assms show ?thesis by (auto simp: bind_eq_Return_iff)
next
  case (Cons nxt rest)
  show ?thesis
  proof (cases "is_value_token c nxt")
    case False
    with assms Cons show ?thesis by (auto simp: bind_eq_Return_iff)
  next
    case True
    with assms(3) Cons have stop: "takeWhile (is_value_token c) rest = []" by simp
    from assms(1,2,4) Cons True obtain r1 where
      s: "store_value c a nxt r = Return r1"
      and k: "consume_values c a arg (0 + 1) rest r1 = Return (rest', r')"
      by (auto simp: bind_eq_Return_iff)
    have "r' = r1"
    proof (cases rest)
      case Nil
      with k assms(2) show ?thesis by simp
    next
      case (Cons nxt2 rest2)
      with stop have "\<not> is_value_token c nxt2" by (auto split: if_splits)
      with k Cons assms(2) show ?thesis by simp
    qed
    with s True Cons show ?thesis by simp
  qed
qed

section \<open>How a group of positional tokens is split\<close>

text \<open>
  What the first loop of \<^verbatim>\<open>_match_args_partial\<close> counts for a slot: its minimum, whether
  it takes what is over (\<^verbatim>\<open>+\<close>, \<^verbatim>\<open>*\<close>), and whether it is a \<^verbatim>\<open>?\<close> slot.
\<close>

definition min_amount :: "Argument \<Rightarrow> nat" where
  "min_amount arg =
     (if \<not> takes_values (m_action arg) then 0
      else if m_nargs arg = [] \<or> m_nargs arg = ''+'' then 1
      else if m_nargs arg = ''?'' \<or> m_nargs arg = ''*'' then 0
      else unat (m_num_args arg))"



text \<open>A positional has no \<^verbatim>\<open>help\<close> or \<^verbatim>\<open>version\<close> action: \<^verbatim>\<open>action\<close> refuses them.\<close>

definition slot_action :: "Argument \<Rightarrow> bool" where
  "slot_action arg = (m_action arg \<noteq> help_action \<and> m_action arg \<noteq> version_action)"

lemma action_slot_action:
  "m_type a = Positional \<Longrightarrow> slot_action a \<Longrightarrow> action v a = Return a' \<Longrightarrow> slot_action a'"
  by (cases v) (auto simp: action_def slot_action_def Let_def split: if_splits)




subsection \<open>What a slot takes from the group\<close>







subsection \<open>The share of every slot\<close>












section \<open>End-to-end scenarios\<close>

text \<open>
  The schema \<^verbatim>\<open>add_argument("-x").nargs("?").const_value("C").default_value("D")\<close> on a
  parser with the constructor's settings.
\<close>

definition schema_x :: "ArgumentParser outcome" where
  "schema_x =
     bind (add_argument [''-x''] (new_ArgumentParser ''prog''))
       (\<lambda>p. bind (on_back (nargs_str ''?'') p)
          (\<lambda>p. bind (on_back (const_value ''C'') p) (on_back (default_value ''D''))))"

text \<open>
  C4. For the schema with the single optional \<^verbatim>\<open>-x\<close>, action store, nargs \<^verbatim>\<open>?\<close>, const
  \<^verbatim>\<open>C\<close> and default \<^verbatim>\<open>D\<close>: the empty token list yields \<open>x = [D]\<close>, the tokens \<^verbatim>\<open>-x\<close>
  yield \<open>x = [C]\<close>, and the tokens \<^verbatim>\<open>-x V\<close> yield \<open>x = [V]\<close>. The values are read from the
  Namespace under the name \<open>x\<close>, for every file system.
\<close>

theorem C4_optional_question_mark:
  "bind schema_x (\<lambda>p. bind (parse_args p fs []) (\<lambda>ns. data ns ''x''))
     = Return (store, [''D''])
   \<and> bind schema_x (\<lambda>p. bind (parse_args p fs [''-x'']) (\<lambda>ns. data ns ''x''))
     = Return (store, [''C''])
   \<and> bind schema_x (\<lambda>p. bind (parse_args p fs [''-x'', ''V'']) (\<lambda>ns. data ns ''x''))
     = Return (store, [''V''])"
  by code_simp

text \<open>
  The schema with the optionals \<^verbatim>\<open>-a\<close>, \<^verbatim>\<open>-b\<close> and \<^verbatim>\<open>-c\<close>, each with
  \<^verbatim>\<open>action(store_true)\<close>.
\<close>

definition schema_abc :: "ArgumentParser outcome" where
  "schema_abc =
     bind (add_argument [''-a''] (new_ArgumentParser ''prog''))
       (\<lambda>p. bind (on_back (action store_true) p)
          (\<lambda>p. bind (add_argument [''-b''] p)
             (\<lambda>p. bind (on_back (action store_true) p)
                (\<lambda>p. bind (add_argument [''-c''] p) (on_back (action store_true))))))"

text \<open>
  C7. Short-flag bundling: with the optionals \<^verbatim>\<open>-a\<close>, \<^verbatim>\<open>-b\<close>, \<^verbatim>\<open>-c\<close>, all store_true,
  the single token \<^verbatim>\<open>-abc\<close> is expanded into the three flags, and the parse stores the
  value \<^verbatim>\<open>1\<close> under each of the keys a, b and c.
\<close>

theorem C7_bundled_short_flags:
  "bind schema_abc
     (\<lambda>p. bind (create_result (optional (make_ctx p)) [])
        (\<lambda>r. check_abbreviations (make_ctx p) r [''-abc'']))
     = Return [''-a'', ''-b'', ''-c'']
   \<and> bind schema_abc (\<lambda>p. bind (parse_args p fs [''-abc'']) (\<lambda>ns. data ns ''a''))
     = Return (store_true, [''1''])
   \<and> bind schema_abc (\<lambda>p. bind (parse_args p fs [''-abc'']) (\<lambda>ns. data ns ''b''))
     = Return (store_true, [''1''])
   \<and> bind schema_abc (\<lambda>p. bind (parse_args p fs [''-abc'']) (\<lambda>ns. data ns ''c''))
     = Return (store_true, [''1''])"
  by code_simp

section \<open>Builder methods\<close>

lemma action_store_true:
  "action store_true a = Return a' \<Longrightarrow>
     m_action a' = store_true \<and> m_default a' = ''0'' \<and> m_const a' = ''1''
     \<and> m_nargs a' = ''0'' \<and> m_num_args a' = 0"
  by (auto simp: action_def Let_def)

lemma action_store_false:
  "action store_false a = Return a' \<Longrightarrow>
     m_action a' = store_false \<and> m_default a' = ''1'' \<and> m_const a' = ''0''
     \<and> m_nargs a' = ''0'' \<and> m_num_args a' = 0"
  by (auto simp: action_def Let_def)

lemma action_store_true_returns: "\<exists>a'. action store_true a = Return a'"
  by (simp add: action_def Let_def)

lemma action_store_false_returns: "\<exists>a'. action store_false a = Return a'"
  by (simp add: action_def Let_def)

text \<open>
  C10. Calling \<^verbatim>\<open>default_value\<close> on an argument whose action is store_true or store_false
  never raises and returns the argument with every field as it was; the value handed in is
  dropped. In particular, after \<^verbatim>\<open>action(store_true)\<close> the call returns and the default
  stays \<^verbatim>\<open>0\<close>, and after \<^verbatim>\<open>action(store_false)\<close> it stays \<^verbatim>\<open>1\<close>.
\<close>

theorem C10_default_value_ignored_on_flags:
  "(m_action a = store_true \<or> m_action a = store_false \<longrightarrow> default_value v a = Return a)
   \<and> (\<exists>a'. action store_true a = Return a' \<and> default_value v a' = Return a'
            \<and> m_default a' = ''0'')
   \<and> (\<exists>a'. action store_false a = Return a' \<and> default_value v a' = Return a'
            \<and> m_default a' = ''1'')"
proof (intro conjI impI)
  assume "m_action a = store_true \<or> m_action a = store_false"
  then show "default_value v a = Return a"
    by (auto simp: default_value_def)
next
  obtain a' where a': "action store_true a = Return a'"
    using action_store_true_returns by blast
  from action_store_true[OF a'] have "default_value v a' = Return a'" "m_default a' = ''0''"
    by (simp_all add: default_value_def)
  with a' show "\<exists>a'. action store_true a = Return a' \<and> default_value v a' = Return a'
                  \<and> m_default a' = ''0''"
    by blast
next
  obtain a' where a': "action store_false a = Return a'"
    using action_store_false_returns by blast
  from action_store_false[OF a'] have "default_value v a' = Return a'" "m_default a' = ''1''"
    by (simp_all add: default_value_def)
  with a' show "\<exists>a'. action store_false a = Return a' \<and> default_value v a' = Return a'
                  \<and> m_default a' = ''1''"
    by blast
qed

theorem C10_default_value_ignored_on_flags_witness:
  "m_action help_argument = store_true
   \<and> default_value ''yes'' help_argument = Return help_argument
   \<and> m_default help_argument = ''0''"
  using C10_default_value_ignored_on_flags [of help_argument "''yes''"]
  by (simp add: help_argument_def new_Argument_def)

section \<open>Abbreviation resolution\<close>

text \<open>
  The candidates that \<^verbatim>\<open>_check_abbreviations\<close> collects for a token: one for each declared
  optional whose flag loop ends with a \<^verbatim>\<open>break\<close>, in declaration order.
\<close>

definition abbrev_candidates :: "string \<Rightarrow> Argument list \<Rightarrow> (bool \<times> string \<times> string) list" where
  "abbrev_candidates arg opts = List.map_filter (\<lambda>opt. abbrev_candidate arg (m_flags opt)) opts"

text \<open>The text \<^verbatim>\<open>args\<close> that the loop builds: each flag after a blank, joined by commas.\<close>

fun candidate_listing :: "string \<Rightarrow> string list \<Rightarrow> string" where
  "candidate_listing args [] = args"
| "candidate_listing args (flag # flags) =
     candidate_listing ((if args \<noteq> [] then args @ '','' else args) @ '' '' @ flag) flags"

definition no_files :: files where
  "no_files = (\<lambda>file. None)"

text \<open>One optional with the two flags \<^verbatim>\<open>--foo\<close> and \<^verbatim>\<open>--foobar\<close>.\<close>

definition schema_two_flags :: "ArgumentParser outcome" where
  "schema_two_flags = add_argument [''--foo'', ''--foobar''] (new_ArgumentParser ''prog'')"

text \<open>Three optionals, \<^verbatim>\<open>--foo\<close>, \<^verbatim>\<open>--fob\<close> and \<^verbatim>\<open>--bar\<close>.\<close>

definition schema_foo_fob :: "ArgumentParser outcome" where
  "schema_foo_fob =
     bind (add_argument [''--foo''] (new_ArgumentParser ''prog''))
       (\<lambda>p. bind (add_argument [''--fob''] p) (add_argument [''--bar'']))"

lemma abbrev_candidates_Cons:
  "abbrev_candidates arg (opt # opts) =
     (case abbrev_candidate arg (m_flags opt) of
        None \<Rightarrow> abbrev_candidates arg opts
      | Some cand \<Rightarrow> cand # abbrev_candidates arg opts)"
  by (simp add: abbrev_candidates_def map_filter_simps split: option.splits)

lemma abbrev_scan_candidates:
  "abbrev_scan arg opts (added, args, keys) =
     (added \<or> list_ex fst (abbrev_candidates arg opts),
      candidate_listing args (map (\<lambda>cand. snd (snd cand)) (abbrev_candidates arg opts)),
      keys @ map (\<lambda>cand. fst (snd cand)) (abbrev_candidates arg opts))"
proof (induction opts arbitrary: added args keys)
  case Nil
  show ?case by (simp add: abbrev_candidates_def map_filter_simps)
next
  case (Cons opt opts)
  show ?case
  proof (cases "abbrev_candidate arg (m_flags opt)")
    case None
    then show ?thesis by (simp add: Cons.IH abbrev_candidates_Cons)
  next
    case (Some cand)
    obtain b key flag where cand: "cand = (b, key, flag)" by (cases cand) auto
    show ?thesis by (auto simp: Some cand Cons.IH abbrev_candidates_Cons)
  qed
qed

text \<open>
  The candidates in the words of the amended rule: every declared optional contributes at
  most one flag, its first flag, in declaration order, that has the token as a prefix or
  that has two characters and starts the token.
\<close>

definition candidate_flag :: "string \<Rightarrow> Argument \<Rightarrow> string option" where
  "candidate_flag arg opt =
     find (\<lambda>flag. starts_with flag arg \<or> (length flag = 2 \<and> starts_with arg flag)) (m_flags opt)"

definition candidate_flags :: "string \<Rightarrow> Argument list \<Rightarrow> string list" where
  "candidate_flags arg opts = List.map_filter (candidate_flag arg) opts"

text \<open>The flag loop of \<^verbatim>\<open>_check_abbreviations\<close> finds these candidates.\<close>

lemma abbrev_candidate_find:
  "abbrev_candidate arg flags =
     map_option (\<lambda>flag. if starts_with flag arg then (True, flag, flag) else (False, arg, flag))
       (find (\<lambda>flag. starts_with flag arg \<or> (length flag = 2 \<and> starts_with arg flag)) flags)"
  by (induction flags) simp_all

lemma abbrev_candidates_flags:
  "abbrev_candidates arg opts =
     map (\<lambda>flag. if starts_with flag arg then (True, flag, flag) else (False, arg, flag))
       (candidate_flags arg opts)"
proof (induction opts)
  case Nil
  show ?case by (simp add: abbrev_candidates_def candidate_flags_def map_filter_simps)
next
  case (Cons opt opts)
  have split: "candidate_flags arg (opt # opts) =
      (case candidate_flag arg opt of
         None \<Rightarrow> candidate_flags arg opts
       | Some flag \<Rightarrow> flag # candidate_flags arg opts)"
    by (simp add: candidate_flags_def map_filter_simps split: option.splits)
  show ?case
  proof (cases "candidate_flag arg opt")
    case None
    then have "abbrev_candidate arg (m_flags opt) = None"
      by (simp add: abbrev_candidate_find candidate_flag_def)
    with None Cons.IH split show ?thesis by (simp add: abbrev_candidates_Cons)
  next
    case (Some flag)
    then have "abbrev_candidate arg (m_flags opt)
                 = Some (if starts_with flag arg then (True, flag, flag) else (False, arg, flag))"
      by (simp add: abbrev_candidate_find candidate_flag_def)
    with Some Cons.IH split show ?thesis by (simp add: abbrev_candidates_Cons)
  qed
qed

lemma skeleton_has_key:
  "k \<in> set (concat (map get_argument_flags args)) \<Longrightarrow> map_of (skeleton args) k \<noteq> None"
proof -
  assume "k \<in> set (concat (map get_argument_flags args))"
  then have "k \<in> set (map fst (skeleton args))" by (simp only: skeleton_keys)
  then have "k \<in> fst ` set (skeleton args)" by simp
  then show ?thesis by (simp add: map_of_eq_None_iff)
qed

text \<open>
  C3, as the code has it. With \<open>allow_abbrev\<close>, for a token that is not empty, is
  option-shaped and passes the negative-number test:
  \<^item> a token that is a key of the result is kept as it is, whatever longer flags exist;
    every flag of a declared optional without a dest is such a key of the result that
    \<^verbatim>\<open>_create_result\<close> makes;
  \<^item> for a token that is neither a key nor a flag of a declared optional, every declared
    optional contributes at most one candidate (its first flag that has the token as a
    prefix, or that has two characters and starts the token); when exactly one optional
    contributes and its candidate has the token as a prefix, that flag replaces the token;
  \<^item> for such a token, when two or more optionals contribute, the parse fails with the
    ambiguous-option error that lists the candidates.
\<close>

theorem C3_abbreviation_candidates:
  assumes "c_allow_abbrev c" and "arg \<noteq> []"
    and "is_optional_argument arg (c_prefix_chars c)"
    and "have_negative_options c \<or> \<not> is_negative_number arg"
  shows "(map_of r arg \<noteq> None \<longrightarrow> check_abbreviation c r arg = Return [arg])
    \<and> ((\<exists>opt\<in>set (optional c). m_dest opt = [] \<and> arg \<in> set (m_flags opt))
         \<longrightarrow> check_abbreviation c (skeleton (all_arguments c)) arg = Return [arg])
    \<and> (map_of r arg = None \<and> (\<forall>opt\<in>set (optional c). arg \<notin> set (m_flags opt))
         \<and> candidate_flags arg (optional c) = [flag] \<and> starts_with flag arg
         \<longrightarrow> check_abbreviation c r arg = Return [flag])
    \<and> (map_of r arg = None \<and> (\<forall>opt\<in>set (optional c). arg \<notin> set (m_flags opt))
         \<and> length (candidate_flags arg (optional c)) \<ge> 2
         \<longrightarrow> check_abbreviation c r arg =
               Throw (logic_error (c_prog c @ '': error: ambiguous option: '' @ apostrophe @ arg
                 @ apostrophe @ '' could match''
                 @ candidate_listing [] (candidate_flags arg (optional c)))))"
proof -
  have key: "\<And>r. map_of r arg \<noteq> None \<Longrightarrow> check_abbreviation c r arg = Return [arg]"
    by (auto simp: check_abbreviation_def)
  have listing: "map (\<lambda>cand. snd (snd cand)) (abbrev_candidates arg (optional c))
                   = candidate_flags arg (optional c)"
    by (simp add: abbrev_candidates_flags comp_def if_distrib cong: if_cong)
  have c1: "map_of r arg \<noteq> None \<longrightarrow> check_abbreviation c r arg = Return [arg]"
    using key by blast
  have c2: "(\<exists>opt\<in>set (optional c). m_dest opt = [] \<and> arg \<in> set (m_flags opt))
         \<longrightarrow> check_abbreviation c (skeleton (all_arguments c)) arg = Return [arg]"
  proof
    assume "\<exists>opt\<in>set (optional c). m_dest opt = [] \<and> arg \<in> set (m_flags opt)"
    then obtain opt where opt: "opt \<in> set (optional c)" "m_dest opt = []" "arg \<in> set (m_flags opt)"
      by blast
    then have "arg \<in> set (get_argument_flags opt)" by (simp add: get_argument_flags_def)
    with opt(1) have "arg \<in> set (concat (map get_argument_flags (all_arguments c)))"
      by (auto simp: all_arguments_def)
    from key[OF skeleton_has_key[OF this]]
    show "check_abbreviation c (skeleton (all_arguments c)) arg = Return [arg]" .
  qed
  have c3: "map_of r arg = None \<and> (\<forall>opt\<in>set (optional c). arg \<notin> set (m_flags opt))
         \<and> candidate_flags arg (optional c) = [flag] \<and> starts_with flag arg
         \<longrightarrow> check_abbreviation c r arg = Return [flag]"
  proof
    assume h: "map_of r arg = None \<and> (\<forall>opt\<in>set (optional c). arg \<notin> set (m_flags opt))
         \<and> candidate_flags arg (optional c) = [flag] \<and> starts_with flag arg"
    then have "abbrev_candidates arg (optional c) = [(True, flag, flag)]"
      by (simp add: abbrev_candidates_flags)
    with h assms show "check_abbreviation c r arg = Return [flag]"
      by (simp add: check_abbreviation_def abbrev_scan_candidates)
  qed
  have c4: "map_of r arg = None \<and> (\<forall>opt\<in>set (optional c). arg \<notin> set (m_flags opt))
         \<and> length (candidate_flags arg (optional c)) \<ge> 2
         \<longrightarrow> check_abbreviation c r arg =
               Throw (logic_error (c_prog c @ '': error: ambiguous option: '' @ apostrophe @ arg
                 @ apostrophe @ '' could match''
                 @ candidate_listing [] (candidate_flags arg (optional c))))"
  proof
    assume h: "map_of r arg = None \<and> (\<forall>opt\<in>set (optional c). arg \<notin> set (m_flags opt))
         \<and> length (candidate_flags arg (optional c)) \<ge> 2"
    then have "length (abbrev_candidates arg (optional c)) \<ge> 2"
      by (simp add: abbrev_candidates_flags)
    with h assms listing show "check_abbreviation c r arg =
        Throw (logic_error (c_prog c @ '': error: ambiguous option: '' @ apostrophe @ arg
          @ apostrophe @ '' could match''
          @ candidate_listing [] (candidate_flags arg (optional c))))"
      by (simp add: check_abbreviation_def abbrev_scan_candidates handle_error_def)
  qed
  from c1 c2 c3 c4 show ?thesis by blast
qed

text \<open>The parser that \<open>schema_foo_fob\<close> builds, and its result skeleton.\<close>

definition parser_foo_fob :: ArgumentParser where
  "parser_foo_fob =
     set_fields (\<lambda>s. s\<lparr>m_arguments := [new_Argument [''--foo''] ''foo'' Optional,
                                         new_Argument [''--fob''] ''fob'' Optional,
                                         new_Argument [''--bar''] ''bar'' Optional]\<rparr>)
       (new_ArgumentParser ''prog'')"

definition skeleton_foo_fob :: result_map where
  "skeleton_foo_fob =
     [(''-h'', (store_true, [])), (''--help'', (store_true, [])),
      (''--foo'', (store, [])), (''--fob'', (store, [])), (''--bar'', (store, []))]"

lemma schema_foo_fob_parser:
  "schema_foo_fob = Return parser_foo_fob
   \<and> create_result (optional (make_ctx parser_foo_fob)) [] = Return skeleton_foo_fob
   \<and> skeleton (all_arguments (make_ctx parser_foo_fob)) = skeleton_foo_fob"
  by code_simp

theorem C3_abbreviation_candidates_witness:
  "check_abbreviation (make_ctx parser_foo_fob) skeleton_foo_fob ''--foo'' = Return [''--foo'']
   \<and> candidate_flags ''--foo'' (optional (make_ctx parser_foo_fob)) = [''--foo'']
   \<and> candidate_flags ''--ba'' (optional (make_ctx parser_foo_fob)) = [''--bar'']
   \<and> check_abbreviation (make_ctx parser_foo_fob) skeleton_foo_fob ''--ba'' = Return [''--bar'']
   \<and> candidate_flags ''--fo'' (optional (make_ctx parser_foo_fob)) = [''--foo'', ''--fob'']
   \<and> check_abbreviation (make_ctx parser_foo_fob) skeleton_foo_fob ''--fo''
       = Throw (logic_error (''prog: error: ambiguous option: '' @ apostrophe @ ''--fo''
                             @ apostrophe @ '' could match --foo, --fob''))"
proof -
  let ?c = "make_ctx parser_foo_fob"
  have gate: "c_allow_abbrev ?c"
    and opt: "is_optional_argument ''--foo'' (c_prefix_chars ?c)"
             "is_optional_argument ''--ba'' (c_prefix_chars ?c)"
             "is_optional_argument ''--fo'' (c_prefix_chars ?c)"
    and neg: "have_negative_options ?c \<or> \<not> is_negative_number ''--foo''"
             "have_negative_options ?c \<or> \<not> is_negative_number ''--ba''"
             "have_negative_options ?c \<or> \<not> is_negative_number ''--fo''"
    by code_simp+
  have skel: "skeleton (all_arguments ?c) = skeleton_foo_fob"
    by code_simp
  have declared: "\<exists>opt\<in>set (optional ?c). m_dest opt = [] \<and> ''--foo'' \<in> set (m_flags opt)"
    by code_simp
  have keys: "map_of skeleton_foo_fob ''--foo'' \<noteq> None"
             "map_of skeleton_foo_fob ''--ba'' = None"
             "map_of skeleton_foo_fob ''--fo'' = None"
    by code_simp+
  have noflag: "\<forall>opt\<in>set (optional ?c). ''--ba'' \<notin> set (m_flags opt)"
               "\<forall>opt\<in>set (optional ?c). ''--fo'' \<notin> set (m_flags opt)"
    by code_simp+
  have cands: "candidate_flags ''--foo'' (optional ?c) = [''--foo'']"
              "candidate_flags ''--ba'' (optional ?c) = [''--bar'']"
              "candidate_flags ''--fo'' (optional ?c) = [''--foo'', ''--fob'']"
    and pre: "starts_with ''--bar'' ''--ba''"
    by code_simp+
  have prog: "c_prog ?c = ''prog''"
    by code_simp
  have a: "check_abbreviation ?c skeleton_foo_fob ''--foo'' = Return [''--foo'']"
    using C3_abbreviation_candidates [OF gate _ opt(1) neg(1), of skeleton_foo_fob "''--foo''"]
      declared skel
    by simp
  have b: "check_abbreviation ?c skeleton_foo_fob ''--ba'' = Return [''--bar'']"
    using C3_abbreviation_candidates [OF gate _ opt(2) neg(2), of skeleton_foo_fob "''--bar''"]
      keys(2) noflag(1) cands(2) pre
    by simp
  have d: "check_abbreviation ?c skeleton_foo_fob ''--fo'' =
      Throw (logic_error (c_prog ?c @ '': error: ambiguous option: '' @ apostrophe
        @ ''--fo'' @ apostrophe @ '' could match --foo, --fob''))"
    using C3_abbreviation_candidates [OF gate _ opt(3) neg(3), of skeleton_foo_fob] keys(3)
      noflag(2) cands(3)
    by simp
  show ?thesis using a b d prog cands by simp
qed

text \<open>
  Left out above: a token that is a flag of an optional with a dest is not a key of the
  result, so the test \<^verbatim>\<open>result.count(arg) == 0\<close> sends it through the candidate search.
  With \<^verbatim>\<open>--foo\<close> under the dest \<open>x\<close> and \<^verbatim>\<open>--foobar\<close> on a second optional, the exact
  flag \<^verbatim>\<open>--foo\<close> is reported as ambiguous.
\<close>

definition schema_foo_dest :: "ArgumentParser outcome" where
  "schema_foo_dest =
     bind (add_argument [''--foo''] (new_ArgumentParser ''prog''))
       (\<lambda>p. bind (on_back (dest ''x'') p) (add_argument [''--foobar'']))"

lemma exact_flag_under_dest:
  "bind schema_foo_dest (\<lambda>p. parse_known_args p no_files [''--foo'', ''v''])
     = Throw (logic_error (''prog: error: ambiguous option: '' @ apostrophe @ ''--foo''
                           @ apostrophe @ '' could match --foo, --foobar''))"
  by code_simp

text \<open>
  The claim as the specification words it fails where the two flags that the token
  abbreviates belong to one argument: \<^verbatim>\<open>--fo\<close> is a prefix of \<^verbatim>\<open>--foo\<close> and of
  \<^verbatim>\<open>--foobar\<close>, and the parse does not fail: the first of the two flags is taken.
\<close>

theorem C3_counterexample:
  "starts_with ''--foo'' ''--fo'' \<and> starts_with ''--foobar'' ''--fo''
   \<and> bind schema_two_flags (\<lambda>p. Return (map m_flags (m_arguments (cfg p))))
       = Return [[''--foo'', ''--foobar'']]
   \<and> bind schema_two_flags
       (\<lambda>p. bind (create_result (optional (make_ctx p)) [])
          (\<lambda>r. check_abbreviation (make_ctx p) r ''--fo'')) = Return [''--foo'']
   \<and> bind schema_two_flags
       (\<lambda>p. bind (parse_args p no_files [''--fo'', ''v'']) (\<lambda>ns. data ns ''foo''))
       = Return (store, [''v''])"
  by code_simp

section \<open>Errors that reach the caller\<close>

text \<open>
  The declaration-time error kinds of the library. A parse-time problem is reported by
  \<^verbatim>\<open>handle_error\<close>, whose exception has the class \<^verbatim>\<open>std::logic_error\<close> itself.
\<close>

definition declaration_error_classes :: "exn_class list" where
  "declaration_error_classes =
     [ArgumentError_class, ValueError_class, TypeError_class, IndexError_class,
      AttributeError_class]"

text \<open>The schemas of the scenarios, each on a parser with \<^verbatim>\<open>exit_on_error(false)\<close>.\<close>

definition strict_parser :: ArgumentParser where
  "strict_parser = exit_on_error False (new_ArgumentParser ''prog'')"

definition schema_strict_foo :: "ArgumentParser outcome" where
  "schema_strict_foo = add_argument [''--foo''] strict_parser"

definition schema_strict_foo_fob :: "ArgumentParser outcome" where
  "schema_strict_foo_fob = bind (add_argument [''--foo''] strict_parser) (add_argument [''--fob''])"

definition schema_strict_required :: "ArgumentParser outcome" where
  "schema_strict_required =
     bind (add_argument [''--foo''] strict_parser) (on_back (required True))"

definition schema_strict_level :: "ArgumentParser outcome" where
  "schema_strict_level =
     bind (add_argument [''--level''] strict_parser)
       (on_back (choices [''low'', ''med'', ''high'']))"

definition schema_strict_verbose :: "ArgumentParser outcome" where
  "schema_strict_verbose =
     bind (add_argument [''--verbose''] strict_parser) (on_back (action store_true))"

text \<open>
  When \<open>exit_on_error\<close> is false, \<^verbatim>\<open>parse_args\<close> hands every outcome of the parse to
  the caller. Every report made through \<^verbatim>\<open>handle_error\<close> is an exception of one class,
  which none of the handlers for ArgumentError, ValueError, TypeError, IndexError and
  AttributeError catches; the missing-value and attached-value reports and a failed choice
  or file are made through it. Seven inputs, one for each kind of user-input problem, are
  reported with that class.
\<close>

lemma reports_are_logic_errors:
  "(\<not> m_exit_on_error (cfg p) \<longrightarrow> parse_args p fs toks = parse_known_args p fs toks)
   \<and> (handle_error prog msg :: Namespace outcome) = Throw (logic_error (prog @ '': error: '' @ msg))
   \<and> class_of (logic_error m) = logic_error_class
   \<and> list_all (\<lambda>h. \<not> catches h (logic_error m)) declaration_error_classes
   \<and> catches logic_error_class (logic_error m)
   \<and> (\<exists>m1. (expected_error c temp arg :: (string list \<times> result_map) outcome)
              = Throw (logic_error m1))
   \<and> (\<exists>m2. (ignored_explicit c arg splitted :: (string list \<times> result_map) outcome)
              = Throw (logic_error m2))
   \<and> (m_choices temp \<noteq> [] \<and> \<not> is_value_exists (remove_quotes v) (m_choices temp)
        \<longrightarrow> (\<exists>m3. validate_argument_value c temp v = Throw (logic_error m3)))
   \<and> (fs path = None \<longrightarrow> (\<exists>m4. convert_arg_line_to_args prog fs path = Throw (logic_error m4)))
   \<and> bind schema_strict_foo (\<lambda>p. parse_args p no_files [''bar''])
       = Throw (logic_error ''prog: error: unrecognized arguments: bar'')
   \<and> bind schema_strict_foo_fob (\<lambda>p. parse_args p no_files [''--fo'', ''bar''])
       = Throw (logic_error (''prog: error: ambiguous option: '' @ apostrophe @ ''--fo''
                             @ apostrophe @ '' could match --foo, --fob''))
   \<and> bind schema_strict_required (\<lambda>p. parse_args p no_files [])
       = Throw (logic_error ''prog: error: the following arguments are required: --foo'')
   \<and> bind schema_strict_level (\<lambda>p. parse_args p no_files [''--level'', ''mid''])
       = Throw (logic_error (''prog: error: argument --level: invalid choice: '' @ apostrophe
                             @ ''mid'' @ apostrophe @ '' (choose from '' @ apostrophe @ ''low''
                             @ apostrophe @ '', '' @ apostrophe @ ''med'' @ apostrophe @ '', ''
                             @ apostrophe @ ''high'' @ apostrophe @ '')''))
   \<and> bind schema_strict_foo (\<lambda>p. parse_args p no_files [''--foo''])
       = Throw (logic_error ''prog: error: argument --foo: expected one argument'')
   \<and> bind schema_strict_verbose (\<lambda>p. parse_args p no_files [''--verbose=1''])
       = Throw (logic_error (''prog: error: argument --verbose: ignored explicit argument ''
                             @ apostrophe @ ''1'' @ apostrophe))
   \<and> parse_args (fromfile_prefix_chars ''@'' strict_parser) no_files [''@args.txt'']
       = Throw (logic_error (''prog: error: [Errno 2] No such file or directory: ''
                             @ apostrophe @ ''args.txt'' @ apostrophe))"
proof -
  have g1: "\<not> m_exit_on_error (cfg p) \<longrightarrow> parse_args p fs toks = parse_known_args p fs toks"
    by (simp add: parse_args_def)
  have g2: "(handle_error prog msg :: Namespace outcome)
              = Throw (logic_error (prog @ '': error: '' @ msg))"
    by (simp add: handle_error_def)
  have g3: "class_of (logic_error m) = logic_error_class"
    "list_all (\<lambda>h. \<not> catches h (logic_error m)) declaration_error_classes"
    "catches logic_error_class (logic_error m)"
    by (simp_all add: declaration_error_classes_def catches_def eval_nat_numeral)
  have g4: "\<exists>m1. (expected_error c temp arg :: (string list \<times> result_map) outcome)
                   = Throw (logic_error m1)"
    by (simp add: expected_error_def handle_error_def)
  have g5: "\<exists>m2. (ignored_explicit c arg splitted :: (string list \<times> result_map) outcome)
                   = Throw (logic_error m2)"
    by (simp add: ignored_explicit_def handle_error_def)
  have g6: "m_choices temp \<noteq> [] \<and> \<not> is_value_exists (remove_quotes v) (m_choices temp)
        \<longrightarrow> (\<exists>m3. validate_argument_value c temp v = Throw (logic_error m3))"
    by (simp add: validate_argument_value_def handle_error_def)
  have g7: "fs path = None \<longrightarrow> (\<exists>m4. convert_arg_line_to_args prog fs path = Throw (logic_error m4))"
    by (simp add: convert_arg_line_to_args_def handle_error_def)
  have s1: "bind schema_strict_foo (\<lambda>p. parse_args p no_files [''bar''])
       = Throw (logic_error ''prog: error: unrecognized arguments: bar'')"
    by code_simp
  have s2: "bind schema_strict_foo_fob (\<lambda>p. parse_args p no_files [''--fo'', ''bar''])
       = Throw (logic_error (''prog: error: ambiguous option: '' @ apostrophe @ ''--fo''
                             @ apostrophe @ '' could match --foo, --fob''))"
    by code_simp
  have s3: "bind schema_strict_required (\<lambda>p. parse_args p no_files [])
       = Throw (logic_error ''prog: error: the following arguments are required: --foo'')"
    by code_simp
  have s4: "bind schema_strict_level (\<lambda>p. parse_args p no_files [''--level'', ''mid''])
       = Throw (logic_error (''prog: error: argument --level: invalid choice: '' @ apostrophe
                             @ ''mid'' @ apostrophe @ '' (choose from '' @ apostrophe @ ''low''
                             @ apostrophe @ '', '' @ apostrophe @ ''med'' @ apostrophe @ '', ''
                             @ apostrophe @ ''high'' @ apostrophe @ '')''))"
    by code_simp
  have s5: "bind schema_strict_foo (\<lambda>p. parse_args p no_files [''--foo''])
       = Throw (logic_error ''prog: error: argument --foo: expected one argument'')"
    by code_simp
  have s6: "bind schema_strict_verbose (\<lambda>p. parse_args p no_files [''--verbose=1''])
       = Throw (logic_error (''prog: error: argument --verbose: ignored explicit argument ''
                             @ apostrophe @ ''1'' @ apostrophe))"
    by code_simp
  have s7: "parse_args (fromfile_prefix_chars ''@'' strict_parser) no_files [''@args.txt'']
       = Throw (logic_error (''prog: error: [Errno 2] No such file or directory: ''
                             @ apostrophe @ ''args.txt'' @ apostrophe))"
    by code_simp
  from g1 g2 g3 g4 g5 g6 g7 s1 s2 s3 s4 s5 s6 s7 show ?thesis by blast
qed

text \<open>
  A parser with the prefix characters \<^verbatim>\<open>-+\<close> and \<open>exit_on_error\<close> false, and the two
  optionals \<^verbatim>\<open>-a\<close> and \<^verbatim>\<open>+a\<close>, both with the action \<^verbatim>\<open>store_true\<close>.
\<close>

definition schema_two_prefixes :: "ArgumentParser outcome" where
  "schema_two_prefixes =
     bind (add_argument [''-a'']
             (exit_on_error False (prefix_chars ''-+'' (new_ArgumentParser ''prog''))))
       (\<lambda>p. bind (on_back (action store_true) p)
          (\<lambda>p. bind (add_argument [''+a''] p) (on_back (action store_true))))"

text \<open>
  C8 at this schema and the token \<^verbatim>\<open>-ab\<close>, which names no declared flag. In
  \<^verbatim>\<open>_separate_arg_abbrev\<close> the character \<open>a\<close> pushes the two flags \<^verbatim>\<open>-a\<close> and \<^verbatim>\<open>+a\<close>,
  so for the character \<open>b\<close>, which no flag ends with, the test \<^verbatim>\<open>flags.size() == i\<close>
  does not hold and \<^verbatim>\<open>argument->action()\<close> is called on the null pointer: the parse
  neither returns nor raises an exception. The token \<^verbatim>\<open>-b\<close> alone is reported as an
  unrecognized argument.
\<close>

theorem C8_null_argument_crash:
  "bind schema_two_prefixes
     (\<lambda>p. Return (m_prefix_chars (cfg p), m_exit_on_error (cfg p),
                    map (\<lambda>a. (m_flags a, m_action a)) (m_arguments (cfg p))))
     = Return (''-+'', False, [([''-a''], store_true), ([''+a''], store_true)])
   \<and> bind schema_two_prefixes
       (\<lambda>p. Return (map fst (short_flag_matches CHR ''a'' (optional (make_ctx p))),
                      map fst (short_flag_matches CHR ''b'' (optional (make_ctx p)))))
     = Return ([''-a'', ''+a''], [])
   \<and> bind schema_two_prefixes (\<lambda>p. separate_arg_abbrev (make_ctx p) ''-ab'' ''ab'') = Crash
   \<and> bind schema_two_prefixes (\<lambda>p. parse_args p no_files [''-ab'']) = Crash
   \<and> bind schema_two_prefixes (\<lambda>p. parse_args p no_files [''-b''])
     = Throw (logic_error ''prog: error: unrecognized arguments: -b'')"
  by code_simp

section \<open>One value sequence under every flag\<close>

text \<open>
  Two optionals that both declare \<^verbatim>\<open>--foo\<close>: the first stores under its dest \<open>x\<close>, so the
  result skeleton has no conflict, and the second has the flags \<^verbatim>\<open>--foo\<close> and \<^verbatim>\<open>-f\<close> and
  no dest.
\<close>

definition schema_shared_flag :: "ArgumentParser outcome" where
  "schema_shared_flag =
     bind (add_argument [''--foo''] (new_ArgumentParser ''prog''))
       (\<lambda>p. bind (on_back (dest ''x'') p)
          (\<lambda>p. bind (on_back (default_value ''B'') p)
             (\<lambda>p. bind (add_argument [''--foo'', ''-f''] p) (on_back (default_value ''A'')))))"

text \<open>
  C9 at this schema and the empty token list: the parse succeeds, and the Namespace holds
  \<open>[B]\<close> under \<^verbatim>\<open>--foo\<close> and \<open>[A]\<close> under \<^verbatim>\<open>-f\<close>, the two flags of the second argument.
  The last loop of \<^verbatim>\<open>parse_known_args\<close> looks the key \<^verbatim>\<open>--foo\<close> up with
  \<^verbatim>\<open>_get_optional_arg_by_dest\<close>, which compares the flags of the first argument although
  that argument stores under its dest.
\<close>

theorem C9_shared_flag_values_differ:
  "bind schema_shared_flag (\<lambda>p. Return (map (\<lambda>a. (m_flags a, m_dest a)) (m_arguments (cfg p))))
     = Return [([''--foo''], ''x''), ([''--foo'', ''-f''], [])]
   \<and> bind schema_shared_flag
       (\<lambda>p. bind (parse_args p no_files [])
          (\<lambda>ns. Return (map_of (ns_arguments ns) ''--foo'', map_of (ns_arguments ns) ''-f'')))
     = Return (Some (store, [''B'']), Some (store, [''A'']))"
  by code_simp

section \<open>Stored values and \<^verbatim>\<open>choices\<close>\<close>

text \<open>
  An optional \<^verbatim>\<open>--level\<close> with three choices and a default that is none of them, and
  the parser that the calls build.
\<close>

definition schema_level_default :: "ArgumentParser outcome" where
  "schema_level_default =
     bind (add_argument [''--level''] (new_ArgumentParser ''prog''))
       (\<lambda>p. bind (on_back (choices [''low'', ''med'', ''high'']) p)
          (on_back (default_value ''zzz'')))"

definition level_argument :: Argument where
  "level_argument =
     (new_Argument [''--level''] ''level'' Optional)
       \<lparr>m_default := ''zzz'', m_choices := [''low'', ''med'', ''high'']\<rparr>"

definition parser_level :: ArgumentParser where
  "parser_level =
     set_fields (\<lambda>s. s\<lparr>m_arguments := [level_argument]\<rparr>) (new_ArgumentParser ''prog'')"

text \<open>
  The builders keep \<open>choices\<close> empty on every argument whose action takes no values:
  \<^verbatim>\<open>choices\<close> refuses such an argument, and \<^verbatim>\<open>action\<close> clears the list.
\<close>

definition choices_on_values :: "Argument \<Rightarrow> bool" where
  "choices_on_values a = (m_choices a = [] \<or> takes_values (m_action a))"

lemma new_Argument_choices_on_values: "choices_on_values (new_Argument flags name t)"
  by (simp add: choices_on_values_def new_Argument_def)

lemma action_choices_on_values:
  "choices_on_values a \<Longrightarrow> action v a = Return a' \<Longrightarrow> choices_on_values a'"
  by (cases v) (auto simp: action_def choices_on_values_def takes_values_def Let_def
                     split: if_splits)

lemma choices_choices_on_values: "choices v a = Return a' \<Longrightarrow> choices_on_values a'"
  by (auto simp: choices_def choices_on_values_def split: if_splits)

lemma nargs_num_choices_on_values:
  "choices_on_values a \<Longrightarrow> nargs_num n a = Return a' \<Longrightarrow> choices_on_values a'"
  by (cases "takes_values (m_action a)"; cases "n = 0")
     (simp_all add: nargs_num_def, auto simp: choices_on_values_def)

lemma nargs_str_choices_on_values:
  "choices_on_values a \<Longrightarrow> nargs_str v a = Return a' \<Longrightarrow> choices_on_values a'"
  by (auto simp: nargs_str_def choices_on_values_def Let_def split: if_splits)

lemma const_value_choices_on_values:
  "choices_on_values a \<Longrightarrow> const_value v a = Return a' \<Longrightarrow> choices_on_values a'"
  by (auto simp: const_value_def choices_on_values_def Let_def split: if_splits)

lemma default_value_choices_on_values:
  "choices_on_values a \<Longrightarrow> default_value v a = Return a' \<Longrightarrow> choices_on_values a'"
  by (auto simp: default_value_def choices_on_values_def Let_def split: if_splits)

lemma required_choices_on_values:
  "choices_on_values a \<Longrightarrow> required b a = Return a' \<Longrightarrow> choices_on_values a'"
  by (auto simp: required_def choices_on_values_def Let_def split: if_splits)

lemma dest_choices_on_values:
  "choices_on_values a \<Longrightarrow> dest v a = Return a' \<Longrightarrow> choices_on_values a'"
  by (auto simp: dest_def choices_on_values_def Let_def split: if_splits)

text \<open>The stores made for an argument with choices keep its values valid or default.\<close>

lemma kept_by_choices:
  assumes "m_choices a \<noteq> []" and "takes_values (m_action a)"
  shows "kept_by c a
           (all_values (\<lambda>vs. \<forall>v\<in>set vs. remove_quotes v \<in> set (m_choices a)
                                        \<or> v = default_arg_value c a)
              K)"
    (is "kept_by c a (all_values ?Q K)")
proof (unfold kept_by_def, intro allI impI)
  fix r r'
  assume P: "all_values ?Q K r"
    and ops: "(\<not> stored_action (m_action a) \<and> (\<exists>v. store_value c a v r = Return r'))
         \<or> store_default_value c a r = Return r'
         \<or> (constant_action (m_action a) \<and> store_const_value a r = Return r')
         \<or> (m_action a = append_const \<and> append_const_value c a r = Return r')
         \<or> (m_action a = count_action \<and> store_count_value a r = Return r')
         \<or> (m_action a = store
             \<and> for_each_flag (\<lambda>vs. []) (get_argument_flags a) r = Return r')"
  from assms(2) have no: "\<not> constant_action (m_action a)" "m_action a \<noteq> append_const"
    "m_action a \<noteq> count_action"
    by (auto simp: takes_values_def constant_action_def)
  from ops no consider
    (sv) v where "store_value c a v r = Return r'"
    | (sd) "store_default_value c a r = Return r'"
    | (cl) "for_each_flag (\<lambda>vs. []) (get_argument_flags a) r = Return r'"
    by blast
  then show "all_values ?Q K r'"
  proof cases
    case sv
    from store_value_valid[OF sv] assms(1) have "remove_quotes v \<in> set (m_choices a)" by simp
    then have "\<And>vs. ?Q vs \<Longrightarrow> ?Q (vs @ [v])" by simp
    from store_value_all_values[of c a v r r' ?Q, OF sv this P] show ?thesis .
  next
    case sd
    show ?thesis
    proof (cases "m_action a = store")
      case True
      with sd have f: "for_each_flag (\<lambda>vs. if vs = [] then [default_arg_value c a] else vs)
                         (get_argument_flags a) r = Return r'"
        by (simp add: store_default_value_def)
      have "\<And>vs. ?Q vs \<Longrightarrow> ?Q (if vs = [] then [default_arg_value c a] else vs)" by simp
      from for_each_flag_all_values[of _ _ r r' ?Q, OF f this P] show ?thesis .
    next
      case False
      with sd P show ?thesis by (simp add: store_default_value_def)
    qed
  next
    case cl
    have "\<And>vs. ?Q vs \<Longrightarrow> ?Q []" by simp
    from for_each_flag_all_values[of _ _ r r' ?Q, OF cl this P] show ?thesis .
  qed
qed

text \<open>
  C1, as the code has it. Take a successful parse and an argument with a non-empty
  \<open>choices\<close> list, whose action takes values (as the builders ensure) and whose keys the
  default lookup of the last loop resolves to no other argument. Then every value that the
  Namespace holds under a key of the argument is, with its quotes stripped, one of the
  choices, or it is the default value of the argument: its own default or, failing that,
  the \<open>argument_default\<close> of the parser. A value taken from the tokens and the const stored
  for \<^verbatim>\<open>nargs("?")\<close> go through \<^verbatim>\<open>_validate_argument_value\<close>; a default does not.
\<close>

theorem C1_values_are_choices_or_default:
  assumes "parse_known_args p fs toks = Return ns"
    and "a \<in> set (all_arguments (make_ctx p))"
    and "m_choices a \<noteq> []" and "takes_values (m_action a)"
    and "k \<in> set (get_argument_flags a)"
    and "get_optional_arg_by_dest (make_ctx p) k = None
         \<or> get_optional_arg_by_dest (make_ctx p) k = Some a"
    and "map_of (ns_arguments ns) k = Some (act, vs)" and "v \<in> set vs"
  shows "remove_quotes v \<in> set (m_choices a) \<or> v = default_arg_value (make_ctx p) a"
proof -
  let ?c = "make_ctx p"
  let ?K = "set (get_argument_flags a)"
  let ?Q = "\<lambda>vs. \<forall>v\<in>set vs. remove_quotes v \<in> set (m_choices a) \<or> v = default_arg_value ?c a"
  from parse_known_args_Return[OF assms(1)]
  have dist: "distinct (concat (map get_argument_flags (all_arguments ?c)))" by blast
  have kept: "\<forall>arg\<in>set (all_arguments ?c). kept_by ?c arg (all_values ?Q ?K)"
  proof
    fix arg assume arg: "arg \<in> set (all_arguments ?c)"
    show "kept_by ?c arg (all_values ?Q ?K)"
    proof (cases "arg = a")
      case True
      from kept_by_choices[OF assms(3,4), of ?c ?K] True show ?thesis by simp
    next
      case False
      from distinct_concat_disjoint[OF dist arg assms(2) False]
      show ?thesis by (rule kept_by_disjoint)
    qed
  qed
  have init: "all_values ?Q ?K (skeleton (all_arguments ?c))"
    unfolding all_values_def
  proof (rule ballI, rule allI, rule impI)
    fix k' av assume "k' \<in> ?K" and m: "map_of (skeleton (all_arguments ?c)) k' = Some av"
    from map_of_skeleton[OF dist assms(2) this(1)] m have "snd av = []" by simp
    then show "?Q (snd av)" by simp
  qed
  from parse_known_args_kept[OF assms(1) kept init] obtain r where
    P: "all_values ?Q ?K r" and ns: "ns_arguments ns = map (materialize_default ?c) r"
    by blast
  from assms(7) ns obtain av where
    av: "map_of r k = Some av" and e: "(act, vs) = snd (materialize_default ?c (k, av))"
    by (auto simp: map_of_materialize_default)
  from P assms(5) av have Q: "?Q (snd av)" unfolding all_values_def by blast
  show ?thesis
  proof (cases "vs = snd av")
    case True
    with Q assms(8) show ?thesis by simp
  next
    case False
    with e obtain b where "get_optional_arg_by_dest ?c k = Some b"
      and "vs = [default_arg_value ?c b]"
      by (auto simp: materialize_default_def split: if_splits option.splits)
    with assms(6,8) show ?thesis by simp
  qed
qed

lemma schema_level_default_parser: "schema_level_default = Return parser_level"
  by code_simp

theorem C1_values_are_choices_or_default_witness:
  "parse_known_args parser_level no_files [''--level'', ''med'']
     = Return \<lparr> ns_arguments = [(''-h'', store_true, [''0'']), (''--help'', store_true, [''0'']),
                                (''--level'', store, [''med''])],
                ns_prefix_chars = ''-'' \<rparr>
   \<and> level_argument \<in> set (all_arguments (make_ctx parser_level))
   \<and> m_choices level_argument = [''low'', ''med'', ''high'']
   \<and> takes_values (m_action level_argument)
   \<and> get_argument_flags level_argument = [''--level'']
   \<and> get_optional_arg_by_dest (make_ctx parser_level) ''--level'' = Some level_argument
   \<and> (remove_quotes ''med'' \<in> set (m_choices level_argument)
        \<or> ''med'' = default_arg_value (make_ctx parser_level) level_argument)"
proof -
  let ?c = "make_ctx parser_level"
  let ?ns = "\<lparr> ns_arguments = [(''-h'', store_true, [''0'']), (''--help'', store_true, [''0'']),
                                (''--level'', store, [''med''])],
               ns_prefix_chars = ''-'' \<rparr>"
  have run: "parse_known_args parser_level no_files [''--level'', ''med''] = Return ?ns"
    by code_simp
  have arg: "level_argument \<in> set (all_arguments ?c)"
    unfolding all_arguments_def by code_simp
  have ch: "m_choices level_argument = [''low'', ''med'', ''high'']"
    and tv: "takes_values (m_action level_argument)"
    and keys: "get_argument_flags level_argument = [''--level'']"
    and lookup: "get_optional_arg_by_dest ?c ''--level'' = Some level_argument"
    by code_simp+
  have held: "map_of (ns_arguments ?ns) ''--level'' = Some (store, [''med''])"
    by simp
  from ch have ne: "m_choices level_argument \<noteq> []" by simp
  from keys have k: "''--level'' \<in> set (get_argument_flags level_argument)" by simp
  from lookup have l: "get_optional_arg_by_dest ?c ''--level'' = None
                       \<or> get_optional_arg_by_dest ?c ''--level'' = Some level_argument"
    by simp
  have "remove_quotes ''med'' \<in> set (m_choices level_argument)
        \<or> ''med'' = default_arg_value ?c level_argument"
    by (rule C1_values_are_choices_or_default[OF run arg ne tv k l held]) simp
  with run arg ch tv keys lookup show ?thesis by simp
qed

text \<open>
  The claim as the specification words it fails for a default: the schema above, parsed
  with no tokens, holds \<open>zzz\<close> under \<^verbatim>\<open>--level\<close>, which is not one of the choices.
\<close>

theorem C1_counterexample:
  "bind schema_level_default
     (\<lambda>p. Return (map (\<lambda>a. (get_argument_flags a, m_choices a, m_default a))
                    (m_arguments (cfg p))))
     = Return [([''--level''], [''low'', ''med'', ''high''], ''zzz'')]
   \<and> bind schema_level_default
       (\<lambda>p. bind (parse_args p no_files []) (\<lambda>ns. Return (map_of (ns_arguments ns) ''--level'')))
     = Return (Some (store, [''zzz'']))
   \<and> \<not> is_value_exists (remove_quotes ''zzz'') [''low'', ''med'', ''high'']"
  by code_simp

section \<open>The actions \<^verbatim>\<open>store_true\<close> and \<^verbatim>\<open>store_false\<close>\<close>

text \<open>
  An optional \<^verbatim>\<open>--verbose\<close> and a positional \<^verbatim>\<open>flag\<close>, both with the action
  \<^verbatim>\<open>store_true\<close>, and what the calls build for the first.
\<close>

definition schema_verbose :: "ArgumentParser outcome" where
  "schema_verbose =
     bind (add_argument [''--verbose''] (new_ArgumentParser ''prog'')) (on_back (action store_true))"

definition schema_positional_flag :: "ArgumentParser outcome" where
  "schema_positional_flag =
     bind (add_argument [''flag''] (new_ArgumentParser ''prog'')) (on_back (action store_true))"

definition verbose_argument :: Argument where
  "verbose_argument =
     (new_Argument [''--verbose''] ''verbose'' Optional)
       \<lparr>m_action := store_true, m_nargs := ''0'', m_const := ''1'', m_default := ''0''\<rparr>"

definition parser_verbose :: ArgumentParser where
  "parser_verbose =
     set_fields (\<lambda>s. s\<lparr>m_arguments := [verbose_argument]\<rparr>) (new_ArgumentParser ''prog'')"

lemma schema_verbose_parser: "schema_verbose = Return parser_verbose"
  by code_simp

text \<open>The switch of the main loop, for an argument that stores its const.\<close>

lemma dispatch_constant:
  assumes "constant_action (m_action temp)"
    and "dispatch c temp arg splitted rest r = Return (rest', r')"
  shows "store_const_value temp r = Return r'"
proof -
  from assms have "store_constant c temp arg splitted rest r = Return (rest', r')"
    by (auto simp: dispatch_def constant_action_def)
  then show ?thesis
    by (auto simp: store_constant_def ignored_explicit_def handle_error_def bind_eq_Return_iff
             split: if_splits)
qed

text \<open>After the token of a constant-storing optional, its key holds the const to the end.\<close>

lemma constant_after_flag:
  assumes ml: "main_loop c (pre @ t # rest) st = Return st'"
    and t: "\<not> is_value_token c t" "get_optional_arg_by_flag c (option_name t) = Some a"
    and a: "constant_action (m_action a)" "k \<in> set (get_argument_flags a)"
    and dist: "distinct (concat (map get_argument_flags (all_arguments c)))"
    and init: "holds_at k act (\<lambda>vs. vs = []) (result st)"
  shows "holds_at k act (\<lambda>vs. vs = [m_const a]) (result st')"
proof -
  from get_optional_arg_by_flag_Some[OF t(2)] have opt: "a \<in> set (optional c)" by simp
  then have mem: "a \<in> set (all_arguments c)" by (rule optional_in_all_arguments)
  from distinct_concat_each[OF dist mem] have da: "distinct (get_argument_flags a)" .
  have kept: "\<And>Q. (\<And>vs. Q vs \<Longrightarrow> Q (if vs = [] then [m_const a] else vs)) \<Longrightarrow>
                \<forall>temp\<in>set (optional c). kept_by c temp (holds_at k act Q)"
  proof
    fix Q temp
    assume q: "\<And>vs. Q vs \<Longrightarrow> Q (if vs = [] then [m_const a] else vs)"
      and temp: "temp \<in> set (optional c)"
    show "kept_by c temp (holds_at k act Q)"
    proof (cases "temp = a")
      case True
      from kept_by_constant[OF a(1) da a(2), of Q c act] q True show ?thesis by simp
    next
      case False
      from temp have "temp \<in> set (all_arguments c)" by (rule optional_in_all_arguments)
      from keys_of_others[OF dist mem a(2) this False] show ?thesis by (rule kept_by_other)
    qed
  qed
  from main_loop_Return_append[OF ml t(1)] obtain st1 where
    m1: "main_loop c pre st = Return st1" and m2: "main_loop c (t # rest) st1 = Return st'"
    by blast
  from init have "holds_at k act (\<lambda>vs. vs = [] \<or> vs = [m_const a]) (result st)"
    by (auto simp: holds_at_def)
  moreover have "\<forall>temp\<in>set (optional c).
      kept_by c temp (holds_at k act (\<lambda>vs. vs = [] \<or> vs = [m_const a]))"
    by (rule kept) auto
  ultimately have h1: "holds_at k act (\<lambda>vs. vs = [] \<or> vs = [m_const a]) (result st1)"
    by (rule main_loop_kept[OF m1])
  from m2 t(2) obtain rest' r' where
    d: "dispatch c a (option_name t) (split_equal t) rest (result st1) = Return (rest', r')"
    and m3: "main_loop c rest' (st1\<lparr>result := r'\<rparr>) = Return st'"
    by (auto simp: main_loop_Cons bind_eq_Return_iff split: if_splits)
  from store_const_value_at[OF dispatch_constant[OF a(1) d] da a(2)] obtain act' vs where
    e: "map_of (result st1) k = Some (act', vs)"
    and f: "map_of r' k = Some (act', if vs = [] then [m_const a] else vs)"
    by blast
  from h1 e f have "holds_at k act (\<lambda>vs. vs = [m_const a]) r'"
    by (auto simp: holds_at_def)
  then have h2: "holds_at k act (\<lambda>vs. vs = [m_const a]) (result (st1\<lparr>result := r'\<rparr>))"
    by simp
  have "\<forall>temp\<in>set (optional c). kept_by c temp (holds_at k act (\<lambda>vs. vs = [m_const a]))"
    by (rule kept) auto
  from main_loop_kept[OF m3 h2 this] show ?thesis .
qed

text \<open>
  C6, as the code has it. \<^verbatim>\<open>action(store_true)\<close> returns the argument with default \<open>0\<close>,
  const \<open>1\<close> and nargs \<open>0\<close>, and \<^verbatim>\<open>action(store_false)\<close> with default \<open>1\<close>, const \<open>0\<close> and
  nargs \<open>0\<close>. Take a successful parse and an optional argument with one of the two
  actions and a default, whose flags and keys the lookups resolve to the argument itself.
  Let \<open>ts\<close> be the tokens after file expansion and abbreviation. If a token of \<open>ts\<close> that
  is option-shaped names one of the flags, every key of the argument holds exactly the
  const; if no token of \<open>ts\<close> names one of the flags, it holds exactly the default.
\<close>

theorem C6_optional_flag_holds_const_or_default:
  assumes "parse_known_args p fs toks = Return ns"
    and "resolved_tokens p fs toks = Return ts"
    and "a \<in> set (optional (make_ctx p))"
    and "m_action a = store_true \<or> m_action a = store_false"
    and "m_default a \<noteq> []"
    and "k \<in> set (get_argument_flags a)"
    and "\<forall>f\<in>set (m_flags a). get_optional_arg_by_flag (make_ctx p) f = Some a"
    and "get_optional_arg_by_dest (make_ctx p) k = Some a"
  shows "(\<exists>a1. action store_true a0 = Return a1 \<and> m_action a1 = store_true
            \<and> m_default a1 = ''0'' \<and> m_const a1 = ''1''
            \<and> m_nargs a1 = ''0'' \<and> m_num_args a1 = 0)
     \<and> (\<exists>a2. action store_false a0 = Return a2 \<and> m_action a2 = store_false
            \<and> m_default a2 = ''1'' \<and> m_const a2 = ''0''
            \<and> m_nargs a2 = ''0'' \<and> m_num_args a2 = 0)
     \<and> ((\<exists>t\<in>set ts. option_name t \<in> set (m_flags a) \<and> \<not> is_value_token (make_ctx p) t)
          \<longrightarrow> map_of (ns_arguments ns) k = Some (m_action a, [m_const a]))
     \<and> ((\<forall>t\<in>set ts. option_name t \<notin> set (m_flags a))
          \<longrightarrow> map_of (ns_arguments ns) k = Some (m_action a, [m_default a]))"
proof -
  let ?c = "make_ctx p"
  let ?st0 = "\<lparr> result = skeleton (all_arguments ?c), positional_values = [],
                unrecognized_args = [] \<rparr>"
  from parse_known_args_Return[OF assms(1)] assms(2) obtain st1 st2 where
    dist: "distinct (concat (map get_argument_flags (all_arguments ?c)))"
    and ml: "main_loop ?c ts ?st0 = Return st1"
    and ma: "match_all ?c (positional_values st1)
               \<lparr> pos = 0, m_result = result st1, m_unrecognized_args = unrecognized_args st1 \<rparr>
             = Return st2"
    and fin: "finalize ?c st2 = Return ns"
    by auto
  from assms(3) have mem: "a \<in> set (all_arguments ?c)" by (rule optional_in_all_arguments)
  from assms(4) have ca: "constant_action (m_action a)" by (simp add: constant_action_def)
  from assms(4) have nc: "m_action a \<noteq> count_action" by auto
  have init: "holds_at k (m_action a) (\<lambda>vs. vs = []) (result ?st0)"
    using holds_at_skeleton[OF dist mem assms(6), of "\<lambda>vs. vs = []"] by simp
  have pos: "\<And>Q. \<forall>arg\<in>set (positional ?c). kept_by ?c arg (holds_at k (m_action a) Q)"
  proof
    fix Q arg assume "arg \<in> set (positional ?c)"
    from keys_of_positionals[OF dist assms(3,6) this]
    show "kept_by ?c arg (holds_at k (m_action a) Q)" by (rule kept_by_other)
  qed
  have tail: "\<And>Q. holds_at k (m_action a) Q (result st1) \<Longrightarrow>
                \<exists>vs. Q vs \<and> map_of (ns_arguments ns) k
                              = Some (snd (materialize_default ?c (k, (m_action a, vs))))"
  proof -
    fix Q assume "holds_at k (m_action a) Q (result st1)"
    with match_all_kept[OF pos _ ma, of Q] have "holds_at k (m_action a) Q (m_result st2)"
      by simp
    from finalize_kept[OF fin pos this] obtain r where
      h: "holds_at k (m_action a) Q r" and ns: "ns_arguments ns = map (materialize_default ?c) r"
      by blast
    from h obtain vs where "map_of r k = Some (m_action a, vs)" and "Q vs"
      unfolding holds_at_def by blast
    with ns show "\<exists>vs. Q vs \<and> map_of (ns_arguments ns) k
                            = Some (snd (materialize_default ?c (k, (m_action a, vs))))"
      by (auto simp: map_of_materialize_default)
  qed
  have const: "map_of (ns_arguments ns) k = Some (m_action a, [m_const a])"
    if "\<exists>t\<in>set ts. option_name t \<in> set (m_flags a) \<and> \<not> is_value_token ?c t"
  proof -
    from that obtain t where t: "t \<in> set ts" "option_name t \<in> set (m_flags a)"
      "\<not> is_value_token ?c t"
      by blast
    from t(1) obtain pre rest where ts: "ts = pre @ t # rest" by (meson split_list)
    from assms(7) t(2) have look: "get_optional_arg_by_flag ?c (option_name t) = Some a"
      by blast
    from ml ts have "main_loop ?c (pre @ t # rest) ?st0 = Return st1" by simp
    from constant_after_flag[OF this t(3) look ca assms(6) dist init]
    have "holds_at k (m_action a) (\<lambda>vs. vs = [m_const a]) (result st1)" .
    from tail[OF this] show ?thesis by (simp add: materialize_default_def)
  qed
  have dflt: "map_of (ns_arguments ns) k = Some (m_action a, [m_default a])"
    if "\<forall>t\<in>set ts. option_name t \<notin> set (m_flags a)"
  proof -
    from untouched_without_flag[OF ml that assms(3,6) dist init]
    have "holds_at k (m_action a) (\<lambda>vs. vs = []) (result st1)" .
    from tail[OF this] nc assms(5,8) show ?thesis
      by (simp add: materialize_default_def default_arg_value_def)
  qed
  obtain a1 where a1: "action store_true a0 = Return a1"
    using action_store_true_returns by blast
  obtain a2 where a2: "action store_false a0 = Return a2"
    using action_store_false_returns by blast
  from a1 action_store_true[OF a1] have t1: "\<exists>a1. action store_true a0 = Return a1
      \<and> m_action a1 = store_true \<and> m_default a1 = ''0'' \<and> m_const a1 = ''1''
      \<and> m_nargs a1 = ''0'' \<and> m_num_args a1 = 0"
    by blast
  from a2 action_store_false[OF a2] have t2: "\<exists>a2. action store_false a0 = Return a2
      \<and> m_action a2 = store_false \<and> m_default a2 = ''1'' \<and> m_const a2 = ''0''
      \<and> m_nargs a2 = ''0'' \<and> m_num_args a2 = 0"
    by blast
  from t1 t2 const dflt show ?thesis by blast
qed

theorem C6_optional_flag_holds_const_or_default_witness:
  "action store_true (new_Argument [''--verbose''] ''verbose'' Optional) = Return verbose_argument
   \<and> verbose_argument \<in> set (optional (make_ctx parser_verbose))
   \<and> get_argument_flags verbose_argument = [''--verbose'']
   \<and> resolved_tokens parser_verbose no_files [''--verb''] = Return [''--verbose'']
   \<and> (\<exists>ns. parse_known_args parser_verbose no_files [''--verb''] = Return ns
           \<and> map_of (ns_arguments ns) ''--verbose'' = Some (store_true, [''1'']))
   \<and> resolved_tokens parser_verbose no_files [] = Return []
   \<and> (\<exists>ns. parse_known_args parser_verbose no_files [] = Return ns
           \<and> map_of (ns_arguments ns) ''--verbose'' = Some (store_true, [''0'']))"
proof -
  let ?c = "make_ctx parser_verbose"
  let ?ns = "\<lambda>v. \<lparr> ns_arguments = [(''-h'', store_true, [''0'']), (''--help'', store_true, [''0'']),
                                    (''--verbose'', store_true, [v])],
                    ns_prefix_chars = ''-'' \<rparr>"
  have built: "action store_true (new_Argument [''--verbose''] ''verbose'' Optional)
                 = Return verbose_argument"
    by code_simp
  have run1: "parse_known_args parser_verbose no_files [''--verb''] = Return (?ns ''1'')"
    and res1: "resolved_tokens parser_verbose no_files [''--verb''] = Return [''--verbose'']"
    and run0: "parse_known_args parser_verbose no_files [] = Return (?ns ''0'')"
    and res0: "resolved_tokens parser_verbose no_files [] = Return []"
    by code_simp+
  have arg: "verbose_argument \<in> set (optional ?c)"
    and act: "m_action verbose_argument = store_true"
    and fields: "m_default verbose_argument = ''0''" "m_const verbose_argument = ''1''"
    and keys: "get_argument_flags verbose_argument = [''--verbose'']"
    and flags: "m_flags verbose_argument = [''--verbose'']"
    and byflag: "get_optional_arg_by_flag ?c ''--verbose'' = Some verbose_argument"
    and bydest: "get_optional_arg_by_dest ?c ''--verbose'' = Some verbose_argument"
    and shape: "\<not> is_value_token ?c ''--verbose''"
    and name: "option_name ''--verbose'' = ''--verbose''"
    by code_simp+
  from act have a: "m_action verbose_argument = store_true \<or> m_action verbose_argument = store_false"
    by simp
  from fields have d: "m_default verbose_argument \<noteq> []" by simp
  from keys have k: "''--verbose'' \<in> set (get_argument_flags verbose_argument)" by simp
  from flags byflag
  have l: "\<forall>f\<in>set (m_flags verbose_argument). get_optional_arg_by_flag ?c f = Some verbose_argument"
    by simp
  from flags shape name
  have seen: "\<exists>t\<in>set [''--verbose'']. option_name t \<in> set (m_flags verbose_argument)
                 \<and> \<not> is_value_token ?c t"
    by simp
  have unseen: "\<forall>t\<in>set []. option_name t \<notin> set (m_flags verbose_argument)" by simp
  from C6_optional_flag_holds_const_or_default[OF run1 res1 arg a d k l bydest] seen
  have v1: "map_of (ns_arguments (?ns ''1'')) ''--verbose''
              = Some (m_action verbose_argument, [m_const verbose_argument])"
    by blast
  from C6_optional_flag_holds_const_or_default[OF run0 res0 arg a d k l bydest] unseen
  have v0: "map_of (ns_arguments (?ns ''0'')) ''--verbose''
              = Some (m_action verbose_argument, [m_default verbose_argument])"
    by blast
  from built arg keys res1 run1 v1 res0 run0 v0 act fields show ?thesis by simp
qed

text \<open>
  The claim as the specification words it fails for a positional: with the action
  \<^verbatim>\<open>store_true\<close> it holds the const \<open>1\<close> after a parse of no tokens at all, not its
  default \<open>0\<close>.
\<close>

theorem C6_counterexample:
  "bind schema_positional_flag
     (\<lambda>p. Return (map (\<lambda>a. (m_flags a, m_type a, m_action a, m_default a, m_const a))
                    (m_arguments (cfg p))))
     = Return [([''flag''], Positional, store_true, ''0'', ''1'')]
   \<and> bind schema_positional_flag
       (\<lambda>p. bind (parse_args p no_files []) (\<lambda>ns. Return (map_of (ns_arguments ns) ''flag'')))
     = Return (Some (store_true, [''1'']))"
  by code_simp

section \<open>The last specification of a \<^verbatim>\<open>store\<close> optional\<close>

text \<open>
  The arities that the builders give an argument with the action \<^verbatim>\<open>store\<close>: the default
  (one value), \<^verbatim>\<open>?\<close>, \<^verbatim>\<open>*\<close> and \<^verbatim>\<open>+\<close> with \<open>num_args = 0\<close>, and \<^verbatim>\<open>nargs(N)\<close> with
  \<open>num_args = N\<close>.
\<close>

definition arity_declared :: "Argument \<Rightarrow> bool" where
  "arity_declared a =
     (if m_num_args a = 0
      then m_nargs a = [] \<or> m_nargs a = ''?'' \<or> m_nargs a = ''*'' \<or> m_nargs a = ''+''
      else m_nargs a \<noteq> [] \<and> m_nargs a \<noteq> ''?'' \<and> m_nargs a \<noteq> ''*'' \<and> m_nargs a \<noteq> ''+'')"

text \<open>
  The values that a specification supplies, in the words of the specification: the value
  attached with \<^verbatim>\<open>=\<close>, or else, out of the value tokens that follow the flag, one for the
  default arity, \<open>N\<close> for \<^verbatim>\<open>nargs(N)\<close>, and all of them otherwise.
\<close>

definition supplied_values :: "ctx \<Rightarrow> Argument \<Rightarrow> string \<Rightarrow> string list \<Rightarrow> string list" where
  "supplied_values c a t rest =
     (if length (split_equal t) = 2 then [last (split_equal t)]
      else if m_nargs a = [] then take 1 (takeWhile (is_value_token c) rest)
      else if m_num_args a \<noteq> 0
      then take (unat (m_num_args a)) (takeWhile (is_value_token c) rest)
      else takeWhile (is_value_token c) rest)"

text \<open>
  What the key holds in the end: the supplied values, and when there are none, the const
  for \<^verbatim>\<open>nargs("?")\<close> and otherwise the default, if there is one.
\<close>

definition held_values :: "ctx \<Rightarrow> Argument \<Rightarrow> string \<Rightarrow> string list \<Rightarrow> string list" where
  "held_values c a t rest =
     (if supplied_values c a t rest \<noteq> [] then supplied_values c a t rest
      else if m_nargs a = ''?'' then [m_const a]
      else if default_arg_value c a \<noteq> [] then [default_arg_value c a]
      else [])"

text \<open>Two schemas: \<^verbatim>\<open>-n\<close> with \<^verbatim>\<open>nargs(2)\<close>, and \<^verbatim>\<open>-x\<close> with \<^verbatim>\<open>nargs("*")\<close> and a default.\<close>

definition schema_pair :: "ArgumentParser outcome" where
  "schema_pair =
     bind (add_argument [''-n''] (new_ArgumentParser ''prog'')) (on_back (nargs_num 2))"

definition schema_star :: "ArgumentParser outcome" where
  "schema_star =
     bind (add_argument [''-x''] (new_ArgumentParser ''prog''))
       (\<lambda>p. bind (on_back (nargs_str ''*'') p) (on_back (default_value ''D'')))"

definition pair_argument :: Argument where
  "pair_argument = (new_Argument [''-n''] ''n'' Optional)\<lparr>m_nargs := ''2'', m_num_args := 2\<rparr>"

definition parser_pair :: ArgumentParser where
  "parser_pair =
     set_fields (\<lambda>s. s\<lparr>m_arguments := [pair_argument]\<rparr>) (new_ArgumentParser ''prog'')"

lemma schema_pair_parser: "schema_pair = Return parser_pair"
  by code_simp

lemma attached_value_arity:
  fixes N :: "32 word"
  shows "N \<noteq> 0 \<Longrightarrow> \<not> 1 < N \<Longrightarrow> unat N = 1"
  by unat_arith

text \<open>What \<^verbatim>\<open>store\<close> leaves under a key that it has cleared.\<close>

lemma store_values_entry:
  assumes ar: "arity_declared a"
    and one: "m_nargs a = ''?'' \<longrightarrow> length (takeWhile (is_value_token c) rest) \<le> 1"
    and da: "distinct (get_argument_flags a)" and k: "k \<in> set (get_argument_flags a)"
    and e: "map_of r k = Some (act, [])"
    and s: "store_values c a arg (split_equal t) rest r = Return (rest', r')"
  shows "map_of r' k
           = Some (act, if supplied_values c a t rest \<noteq> [] then supplied_values c a t rest
                        else if m_nargs a = ''?'' then [m_const a] else [])
     \<and> (m_nargs a = [] \<longrightarrow> length (supplied_values c a t rest) = 1)
     \<and> (m_num_args a \<noteq> 0 \<longrightarrow> length (supplied_values c a t rest) = unat (m_num_args a))
     \<and> (m_nargs a = ''+'' \<longrightarrow> supplied_values c a t rest \<noteq> [])"
proof (cases "length (split_equal t) = 2")
  case True
  with s have sv: "store_value c a (last (split_equal t)) r = Return r'"
    and few: "\<not> (m_nargs a \<noteq> [] \<and> m_num_args a > 1)"
    by (auto simp: store_values_def handle_error_def bind_eq_Return_iff split: if_splits)
  from store_value_entry[OF sv da k e]
  have "map_of r' k = Some (act, [last (split_equal t)])" by simp
  moreover have "m_num_args a \<noteq> 0 \<longrightarrow> unat (m_num_args a) = 1"
  proof
    assume nz: "m_num_args a \<noteq> 0"
    with ar have "m_nargs a \<noteq> []" by (simp add: arity_declared_def)
    with few have "\<not> 1 < m_num_args a" by simp
    from attached_value_arity[OF nz this] show "unat (m_num_args a) = 1" .
  qed
  ultimately show ?thesis using True by (simp add: supplied_values_def)
next
  case False
  with s have cv: "consume_values c a arg 0 rest r = Return (rest', r')"
    by (simp add: store_values_def)
  let ?run = "takeWhile (is_value_token c) rest"
  consider (dflt) "m_nargs a = []"
    | (opt) "m_nargs a = ''?''" "m_num_args a = 0"
    | (many) "m_nargs a = ''*'' \<or> m_nargs a = ''+''" "m_num_args a = 0"
    | (exact) "m_num_args a \<noteq> 0" "m_nargs a \<noteq> []" "m_nargs a \<noteq> ''?''" "m_nargs a \<noteq> ''*''"
        "m_nargs a \<noteq> ''+''"
    using ar by (auto simp: arity_declared_def split: if_splits)
  then show ?thesis
  proof cases
    case dflt
    from consume_values_one[OF dflt cv] obtain v where
      rest: "rest = v # rest'" and v: "is_value_token c v" and sv: "store_value c a v r = Return r'"
      by blast
    from store_value_entry[OF sv da k e] have "map_of r' k = Some (act, [v])" by simp
    moreover from ar dflt have "m_num_args a = 0" by (auto simp: arity_declared_def split: if_splits)
    ultimately show ?thesis using False dflt rest v by (simp add: supplied_values_def)
  next
    case opt
    from one opt(1) have le: "length ?run \<le> 1" by simp
    from consume_values_optional[OF opt le cv]
    have sv: "store_value c a (case ?run of [] \<Rightarrow> m_const a | v # vs \<Rightarrow> v) r = Return r'" .
    from store_value_entry[OF sv da k e]
    have h: "map_of r' k = Some (act, [case ?run of [] \<Rightarrow> m_const a | v # vs \<Rightarrow> v])" by simp
    show ?thesis
    proof (cases ?run)
      case Nil
      with h False opt show ?thesis by (simp add: supplied_values_def)
    next
      case (Cons v vs)
      with le have "vs = []" by simp
      with h Cons False opt show ?thesis by (simp add: supplied_values_def)
    qed
  next
    case many
    then have ne: "m_nargs a \<noteq> []" "m_nargs a \<noteq> ''?''" by auto
    from consume_values_many[OF many(2) ne da k cv e]
    have h: "map_of r' k = Some (act, ?run)" by simp
    have "m_nargs a = ''+'' \<longrightarrow> ?run \<noteq> []"
    proof
      assume "m_nargs a = ''+''"
      from consume_values_plus[OF this cv] show "?run \<noteq> []" .
    qed
    with h False many ne show ?thesis by (auto simp: supplied_values_def)
  next
    case exact
    from count_positive[OF exact(1)] have pos: "0 < m_num_args a"
      and all: "unat (m_num_args a) - unat (0 :: 32 word) = unat (m_num_args a)"
      by simp_all
    from consume_values_exact[OF exact(2,3,4) da k cv pos e] all
    have h: "map_of r' k = Some (act, take (unat (m_num_args a)) ?run)"
      and len: "unat (m_num_args a) \<le> length ?run"
      by simp_all
    from exact(1) have "unat (m_num_args a) \<noteq> 0" by (simp add: unat_eq_0)
    with len have "take (unat (m_num_args a)) ?run \<noteq> []" by auto
    with h len False exact show ?thesis by (simp add: supplied_values_def)
  qed
qed

text \<open>
  C5, as the code has it. For an argument with the action \<^verbatim>\<open>store\<close> the switch of the main
  loop clears the value lists of the argument's keys and then stores. Take a successful
  parse whose tokens, after file expansion and abbreviation, are \<open>pre @ t # rest\<close>, where
  \<open>t\<close> is option-shaped and resolved to the optional \<open>a\<close> with the action \<^verbatim>\<open>store\<close> and a
  declared arity, and no token of \<open>rest\<close> names a flag of \<open>a\<close>: \<open>t\<close> starts the last
  specification of \<open>a\<close>. For \<^verbatim>\<open>nargs("?")\<close> let at most one value token follow \<open>t\<close>. Then
  every key of \<open>a\<close> (that the default lookup resolves to \<open>a\<close>) holds the values this
  specification supplies; when it supplies none, the key holds the const for
  \<^verbatim>\<open>nargs("?")\<close> and otherwise the default, if there is one. The number of supplied values
  is 1 for the default arity, \<open>N\<close> for \<^verbatim>\<open>nargs(N)\<close> and at least 1 for \<^verbatim>\<open>nargs("+")\<close>.
\<close>

theorem C5_store_holds_last_specification:
  assumes "parse_known_args p fs toks = Return ns"
    and "resolved_tokens p fs toks = Return (pre @ t # rest)"
    and "\<not> is_value_token (make_ctx p) t"
    and "get_optional_arg_by_flag (make_ctx p) (option_name t) = Some a"
    and "\<forall>t'\<in>set rest. option_name t' \<notin> set (m_flags a)"
    and "m_action a = store" and "arity_declared a"
    and "m_nargs a = ''?'' \<longrightarrow> length (takeWhile (is_value_token (make_ctx p)) rest) \<le> 1"
    and "k \<in> set (get_argument_flags a)"
    and "get_optional_arg_by_dest (make_ctx p) k = Some a"
  shows "dispatch (make_ctx p) a arg splitted others r
           = bind (for_each_flag (\<lambda>vs. []) (get_argument_flags a) r)
               (store_values (make_ctx p) a arg splitted others)
     \<and> map_of (ns_arguments ns) k = Some (store, held_values (make_ctx p) a t rest)
     \<and> (m_nargs a = [] \<longrightarrow> length (supplied_values (make_ctx p) a t rest) = 1)
     \<and> (m_num_args a \<noteq> 0
          \<longrightarrow> length (supplied_values (make_ctx p) a t rest) = unat (m_num_args a))
     \<and> (m_nargs a = ''+'' \<longrightarrow> supplied_values (make_ctx p) a t rest \<noteq> [])"
proof -
  let ?c = "make_ctx p"
  let ?st0 = "\<lparr> result = skeleton (all_arguments ?c), positional_values = [],
                unrecognized_args = [] \<rparr>"
  let ?stored = "if supplied_values ?c a t rest \<noteq> [] then supplied_values ?c a t rest
                 else if m_nargs a = ''?'' then [m_const a] else []"
  from parse_known_args_Return[OF assms(1)] assms(2) obtain st1 st2 where
    dist: "distinct (concat (map get_argument_flags (all_arguments ?c)))"
    and ml: "main_loop ?c (pre @ t # rest) ?st0 = Return st1"
    and ma: "match_all ?c (positional_values st1)
               \<lparr> pos = 0, m_result = result st1, m_unrecognized_args = unrecognized_args st1 \<rparr>
             = Return st2"
    and fin: "finalize ?c st2 = Return ns"
    by auto
  from get_optional_arg_by_flag_Some[OF assms(4)] have opt: "a \<in> set (optional ?c)" by simp
  then have mem: "a \<in> set (all_arguments ?c)" by (rule optional_in_all_arguments)
  from distinct_concat_each[OF dist mem] have da: "distinct (get_argument_flags a)" .
  from main_loop_Return_append[OF ml assms(3)] obtain stA where
    m1: "main_loop ?c pre ?st0 = Return stA" and m2: "main_loop ?c (t # rest) stA = Return st1"
    by blast
  have "holds_at k (m_action a) (\<lambda>vs. True) (result ?st0)"
    using holds_at_skeleton[OF dist mem assms(9), of "\<lambda>vs. True"] by simp
  moreover have "\<forall>temp\<in>set (optional ?c). kept_by ?c temp (holds_at k (m_action a) (\<lambda>vs. True))"
    by (simp add: kept_by_key)
  ultimately have "holds_at k (m_action a) (\<lambda>vs. True) (result stA)"
    by (rule main_loop_kept[OF m1])
  with assms(6) obtain vs0 where eA: "map_of (result stA) k = Some (store, vs0)"
    unfolding holds_at_def by auto
  from m2 assms(4) obtain rest' r' where
    d: "dispatch ?c a (option_name t) (split_equal t) rest (result stA) = Return (rest', r')"
    and m3: "main_loop ?c rest' (stA\<lparr>result := r'\<rparr>) = Return st1"
    by (auto simp: main_loop_Cons bind_eq_Return_iff split: if_splits)
  from d assms(6) obtain r1 where
    cl: "for_each_flag (\<lambda>vs. []) (get_argument_flags a) (result stA) = Return r1"
    and sv: "store_values ?c a (option_name t) (split_equal t) rest r1 = Return (rest', r')"
    by (auto simp: dispatch_def bind_eq_Return_iff)
  from clear_entry[OF cl da assms(9) eA] have e1: "map_of r1 k = Some (store, [])" .
  from store_values_entry[OF assms(7,8) da assms(9) e1 sv] have
    stored: "map_of r' k = Some (store, ?stored)"
    and arity: "m_nargs a = [] \<longrightarrow> length (supplied_values ?c a t rest) = 1"
      "m_num_args a \<noteq> 0 \<longrightarrow> length (supplied_values ?c a t rest) = unat (m_num_args a)"
      "m_nargs a = ''+'' \<longrightarrow> supplied_values ?c a t rest \<noteq> []"
    by simp_all
  from dispatch_subset[OF d] assms(5)
  have none: "\<forall>t'\<in>set rest'. option_name t' \<notin> set (m_flags a)" by blast
  from stored have "holds_at k store (\<lambda>vs. vs = ?stored) (result (stA\<lparr>result := r'\<rparr>))"
    by (simp add: holds_at_def)
  from untouched_without_flag[OF m3 none opt assms(9) dist this]
  have "map_of (result st1) k = Some (store, ?stored)" by (simp add: holds_at_def)
  then have "map_of (m_result \<lparr> pos = 0, m_result = result st1,
                                m_unrecognized_args = unrecognized_args st1 \<rparr>) k
             = Some (store, ?stored)"
    by simp
  from optional_entry_after_main_loop[OF ma fin dist opt assms(9) this]
  have "map_of (ns_arguments ns) k
          = Some (snd (materialize_default ?c (k, (store, ?stored))))" .
  with assms(10) have held: "map_of (ns_arguments ns) k = Some (store, held_values ?c a t rest)"
    by (simp add: materialize_default_def held_values_def)
  from assms(6) have "dispatch ?c a arg splitted others r
           = bind (for_each_flag (\<lambda>vs. []) (get_argument_flags a) r)
               (store_values ?c a arg splitted others)"
    by (simp add: dispatch_def)
  with held arity show ?thesis by simp
qed

theorem C5_store_holds_last_specification_witness:
  "parse_known_args parser_pair no_files [''-n'', ''a'', ''b'', ''-n'', ''c'', ''d'']
     = Return \<lparr> ns_arguments = [(''-h'', store_true, [''0'']), (''--help'', store_true, [''0'']),
                                (''-n'', store, [''c'', ''d''])],
                ns_prefix_chars = ''-'' \<rparr>
   \<and> resolved_tokens parser_pair no_files [''-n'', ''a'', ''b'', ''-n'', ''c'', ''d'']
       = Return ([''-n'', ''a'', ''b''] @ ''-n'' # [''c'', ''d''])
   \<and> get_optional_arg_by_flag (make_ctx parser_pair) (option_name ''-n'') = Some pair_argument
   \<and> m_action pair_argument = store \<and> arity_declared pair_argument
   \<and> get_argument_flags pair_argument = [''-n'']
   \<and> held_values (make_ctx parser_pair) pair_argument ''-n'' [''c'', ''d''] = [''c'', ''d'']
   \<and> length (supplied_values (make_ctx parser_pair) pair_argument ''-n'' [''c'', ''d''])
       = unat (m_num_args pair_argument)"
proof -
  let ?c = "make_ctx parser_pair"
  let ?ns = "\<lparr> ns_arguments = [(''-h'', store_true, [''0'']), (''--help'', store_true, [''0'']),
                                (''-n'', store, [''c'', ''d''])],
               ns_prefix_chars = ''-'' \<rparr>"
  have run: "parse_known_args parser_pair no_files [''-n'', ''a'', ''b'', ''-n'', ''c'', ''d'']
               = Return ?ns"
    and res: "resolved_tokens parser_pair no_files [''-n'', ''a'', ''b'', ''-n'', ''c'', ''d'']
                = Return ([''-n'', ''a'', ''b''] @ ''-n'' # [''c'', ''d''])"
    by code_simp+
  have shape: "\<not> is_value_token ?c ''-n''"
    and look: "get_optional_arg_by_flag ?c (option_name ''-n'') = Some pair_argument"
    and last: "\<forall>t'\<in>set [''c'', ''d'']. option_name t' \<notin> set (m_flags pair_argument)"
    and act: "m_action pair_argument = store"
    and ar: "arity_declared pair_argument"
    and nz: "m_num_args pair_argument \<noteq> 0"
    and nq: "m_nargs pair_argument \<noteq> ''?''"
    and keys: "get_argument_flags pair_argument = [''-n'']"
    and bydest: "get_optional_arg_by_dest ?c ''-n'' = Some pair_argument"
    and held: "held_values ?c pair_argument ''-n'' [''c'', ''d''] = [''c'', ''d'']"
    by code_simp+
  from nq have one: "m_nargs pair_argument = ''?''
      \<longrightarrow> length (takeWhile (is_value_token ?c) [''c'', ''d'']) \<le> 1"
    by simp
  from keys have k: "''-n'' \<in> set (get_argument_flags pair_argument)" by simp
  from C5_store_holds_last_specification[OF run res shape look last act ar one k bydest] nz
  have "length (supplied_values ?c pair_argument ''-n'' [''c'', ''d''])
          = unat (m_num_args pair_argument)"
    by blast
  with run res look act ar keys held show ?thesis by simp
qed

text \<open>
  The claim as the specification words it fails where the last specification supplies no
  value: \<^verbatim>\<open>-x\<close> with \<^verbatim>\<open>nargs("*")\<close> and the default \<open>D\<close>, given last with nothing after it,
  holds \<open>D\<close> and not the empty sequence, also after an earlier \<^verbatim>\<open>-x a\<close>.
\<close>

theorem C5_counterexample:
  "bind schema_star
     (\<lambda>p. Return (map (\<lambda>a. (m_flags a, m_action a, m_nargs a, m_default a))
                    (m_arguments (cfg p))))
     = Return [([''-x''], store, ''*'', ''D'')]
   \<and> bind schema_star
       (\<lambda>p. Return (map (\<lambda>a. supplied_values (make_ctx p) a ''-x'' []) (m_arguments (cfg p))))
     = Return [[]]
   \<and> bind schema_star
       (\<lambda>p. bind (parse_args p no_files [''-x''])
          (\<lambda>ns. Return (map_of (ns_arguments ns) ''-x'')))
     = Return (Some (store, [''D'']))
   \<and> bind schema_star
       (\<lambda>p. bind (parse_args p no_files [''-x'', ''a'', ''-x''])
          (\<lambda>ns. Return (map_of (ns_arguments ns) ''-x'')))
     = Return (Some (store, [''D'']))"
  by code_simp

section \<open>Positional tokens and slots\<close>


text \<open>Two positionals, \<^verbatim>\<open>src\<close> with the default arity and \<^verbatim>\<open>names\<close> with \<^verbatim>\<open>nargs("*")\<close>.\<close>

definition schema_src_names :: "ArgumentParser outcome" where
  "schema_src_names =
     bind (add_argument [''src''] (new_ArgumentParser ''prog''))
       (\<lambda>p. bind (add_argument [''names''] p) (on_back (nargs_str ''*'')))"

definition parser_src_names :: ArgumentParser where
  "parser_src_names =
     set_fields
       (\<lambda>s. s\<lparr>m_arguments := [new_Argument [''src''] ''src'' Positional,
                               (new_Argument [''names''] ''names'' Positional)
                                 \<lparr>m_nargs := ''*''\<rparr>]\<rparr>)
       (new_ArgumentParser ''prog'')"

lemma schema_src_names_parser: "schema_src_names = Return parser_src_names"
  by code_simp



end
